theory Spec2Isabelle
  imports
    Main
    "HOL-Library.Sublist"
    "HOL-Library.Char_ord"
    "HOL-Library.List_Lexorder"
    "HOL-Library.Product_Lexorder"
begin

section \<open>Strings as the Python and SQL code uses them\<close>

text \<open>
  Python's \<^verbatim>\<open>x in s\<close> on strings is contiguous-substring search, which is
  \<^const>\<open>sublist\<close>; \<^verbatim>\<open>s.endswith(x)\<close> is \<^const>\<open>suffix\<close>. Both
  are executable through the code equations of the library. Strings are compared
  character by character in code order (Python's \<^verbatim>\<open>sorted\<close>, SQLite's BINARY
  collation), which is the lexicographic order on \<^typ>\<open>string\<close>.
\<close>

definition contains :: "string \<Rightarrow> string \<Rightarrow> bool" where
  "contains s x = sublist x s"

definition endswith :: "string \<Rightarrow> string \<Rightarrow> bool" where
  "endswith s x = suffix x s"

text \<open>\<^verbatim>\<open>if x:\<close> on an optional string: neither \<^verbatim>\<open>None\<close> nor empty.\<close>

fun truthy :: "string option \<Rightarrow> bool" where
  "truthy None = False"
| "truthy (Some s) = (s \<noteq> [])"

definition ascii_lower :: "char \<Rightarrow> char" where
  "ascii_lower c =
     (if CHR ''A'' \<le> c \<and> c \<le> CHR ''Z'' then char_of (of_char c + (32::nat)) else c)"

definition py_lower :: "string \<Rightarrow> string" where
  "py_lower s = map ascii_lower s"

text \<open>The characters up to code 255 that \<^verbatim>\<open>str.strip()\<close> removes: the ASCII
  white space, the next-line character and the no-break space. Python's white space
  beyond code 255 has no counterpart in \<^typ>\<open>char\<close>.\<close>

definition is_space :: "char \<Rightarrow> bool" where
  "is_space c = ((of_char c :: nat) \<in> {9, 10, 11, 12, 13, 28, 29, 30, 31, 32, 133, 160})"

definition strip :: "string \<Rightarrow> string" where
  "strip s = rev (dropWhile is_space (rev (dropWhile is_space s)))"

text \<open>\<^verbatim>\<open>s.split(c)\<close>: always at least one piece.\<close>

fun split_on :: "char \<Rightarrow> string \<Rightarrow> string list" where
  "split_on c [] = [[]]"
| "split_on c (x # xs) =
     (if x = c then [] # split_on c xs
      else (case split_on c xs of [] \<Rightarrow> [[x]] | w # ws \<Rightarrow> (x # w) # ws))"

text \<open>\<^verbatim>\<open>sep.join(xs)\<close>.\<close>

fun join :: "string \<Rightarrow> string list \<Rightarrow> string" where
  "join sep [] = []"
| "join sep [x] = x"
| "join sep (x # y # ys) = x @ sep @ join sep (y # ys)"

text \<open>
  SQLite's \<^verbatim>\<open>text LIKE pattern\<close>: \<^verbatim>\<open>%\<close> matches any run of characters,
  \<^verbatim>\<open>_\<close> exactly one, every other character itself without regard to ASCII case;
  there is no escape character. The first argument is the pattern.
\<close>

fun like :: "string \<Rightarrow> string \<Rightarrow> bool" where
  "like [] t = (t = [])"
| "like (p # ps) [] = (p = CHR ''%'' \<and> like ps [])"
| "like (p # ps) (c # cs) =
     (if p = CHR ''%'' then like ps (c # cs) \<or> like (p # ps) cs
      else if p = CHR ''_'' then like ps cs
      else ascii_lower p = ascii_lower c \<and> like ps cs)"

text \<open>
  \<^verbatim>\<open>json.dumps\<close> of a list of strings (the default \<^verbatim>\<open>ensure_ascii\<close>): the
  quote and the backslash are escaped, so is everything outside the printable ASCII range.
\<close>

definition hex_digit :: "nat \<Rightarrow> char" where
  "hex_digit n = ''0123456789abcdef'' ! (n mod 16)"

definition json_escape :: "char \<Rightarrow> string" where
  "json_escape c =
     (if c = CHR 0x22 then [CHR 0x5C, CHR 0x22]
      else if c = CHR 0x5C then [CHR 0x5C, CHR 0x5C]
      else if c = CHR 0x0A then [CHR 0x5C, CHR ''n'']
      else if c = CHR 0x0D then [CHR 0x5C, CHR ''r'']
      else if c = CHR 0x09 then [CHR 0x5C, CHR ''t'']
      else if c = CHR 0x08 then [CHR 0x5C, CHR ''b'']
      else if c = CHR 0x0C then [CHR 0x5C, CHR ''f'']
      else if (of_char c :: nat) < 32 \<or> 126 < (of_char c :: nat)
        then [CHR 0x5C, CHR ''u'', CHR ''0'', CHR ''0'',
              hex_digit (of_char c div 16), hex_digit (of_char c)]
      else [c])"

definition json_string :: "string \<Rightarrow> string" where
  "json_string s = CHR 0x22 # concat (map json_escape s) @ [CHR 0x22]"

definition json_dumps :: "string list \<Rightarrow> string" where
  "json_dumps ts = ''['' @ join '', '' (map json_string ts) @ '']''"

section \<open>The catalog table\<close>

text \<open>
  One row of \<^verbatim>\<open>library_content\<close>, a field per column (the surrogate
  \<^verbatim>\<open>id\<close> apart). The \<^verbatim>\<open>tags\<close> column holds what
  \<^verbatim>\<open>extract_metadata\<close> wrote, \<^verbatim>\<open>json.dumps\<close> of a list of strings; the row
  keeps the list, its text is \<^const>\<open>json_dumps\<close> of it and \<^verbatim>\<open>json.loads\<close>
  gives the list back. \<^verbatim>\<open>last_modified\<close> is \<^verbatim>\<open>NULL\<close> when the sitemap
  gave no \<^verbatim>\<open>lastmod\<close>. \<^verbatim>\<open>scraped_at\<close> is the text of
  \<^verbatim>\<open>CURRENT_TIMESTAMP\<close> at the time of the write. The table is the list of its
  rows in insertion order; \<^verbatim>\<open>url\<close> is \<^verbatim>\<open>UNIQUE\<close>.
\<close>

record row =
  url :: string
  title :: string
  categories :: string
  author :: string
  published_date :: string
  tags :: "string list"
  description :: string
  last_modified :: "string option"
  scraped_at :: string
  scrape_success :: bool

section \<open>queries.py\<close>

text \<open>\<^verbatim>\<open>LibraryDatabase.get_all_categories\<close>.\<close>

definition get_all_categories :: "row list \<Rightarrow> string list" where
  "get_all_categories d =
     (let rows = sort (remdups (map categories
                   (filter (\<lambda>r. scrape_success r \<and> categories r \<noteq> ''Uncategorized'') d)));
          all_categories = concat (map (\<lambda>c. map strip (split_on CHR '','' c))
                                     (filter (\<lambda>c. c \<noteq> []) rows))
      in sort (remdups all_categories))"

text \<open>\<^verbatim>\<open>LibraryDatabase.get_all_authors\<close>.\<close>

definition get_all_authors :: "row list \<Rightarrow> string list" where
  "get_all_authors d =
     sort (remdups (map author (filter (\<lambda>r. scrape_success r \<and> author r \<noteq> ''Unknown'') d)))"

text \<open>
  \<^verbatim>\<open>tag_counts[tag] = tag_counts.get(tag, 0) + 1\<close> on a dictionary, which keeps its
  keys in the order of their first insertion.
\<close>

fun bump :: "string \<Rightarrow> (string \<times> nat) list \<Rightarrow> (string \<times> nat) list" where
  "bump t [] = [(t, 1)]"
| "bump t ((k, n) # kvs) = (if k = t then (k, n + 1) # kvs else (k, n) # bump t kvs)"

definition count_tags :: "row list \<Rightarrow> (string \<times> nat) list" where
  "count_tags rows = fold (\<lambda>r m. fold bump (tags r) m) rows []"

text \<open>
  \<^verbatim>\<open>sorted(items, key=lambda x: x[1], reverse=True)\<close>: Python's sort is stable and
  \<^verbatim>\<open>reverse=True\<close> keeps the original order of equal keys.
\<close>

definition sorted_by_popularity :: "(string \<times> nat) list \<Rightarrow> (string \<times> nat) list" where
  "sorted_by_popularity items = rev (sort_key snd (rev items))"

text \<open>\<^verbatim>\<open>LibraryDatabase.get_all_tags_with_counts\<close>. The cut at 24 is a literal of
  the source; the function has no parameter for it.\<close>

definition get_all_tags_with_counts :: "row list \<Rightarrow> string list" where
  "get_all_tags_with_counts d =
     (let tag_counts = count_tags (filter (\<lambda>r. scrape_success r \<and> tags r \<noteq> []) d);
          top_24_tags = map fst (take 24 (sorted_by_popularity tag_counts))
      in sort top_24_tags)"

text \<open>An entry of the result of \<^verbatim>\<open>search_content\<close>.\<close>

record article =
  a_url :: string
  a_title :: string
  a_categories :: string
  a_author :: string
  a_published_date :: string
  a_tags :: "string list"
  a_description :: string

definition to_article :: "row \<Rightarrow> article" where
  "to_article r = \<lparr> a_url = url r, a_title = title r, a_categories = categories r,
      a_author = author r, a_published_date = published_date r, a_tags = tags r,
      a_description = description r \<rparr>"

text \<open>The \<^verbatim>\<open>WHERE\<close> clause that \<^verbatim>\<open>search_content\<close> builds from its filters.\<close>

definition where_clause ::
  "string option \<Rightarrow> string option \<Rightarrow> string option \<Rightarrow> string option \<Rightarrow> row \<Rightarrow> bool" where
  "where_clause category author' tag search_term r =
     (scrape_success r
      \<and> (case category of None \<Rightarrow> True
          | Some c \<Rightarrow> if c = [] then True else like (''%'' @ c @ ''%'') (categories r))
      \<and> (case author' of None \<Rightarrow> True
          | Some a \<Rightarrow> if a = [] then True else author r = a)
      \<and> (case tag of None \<Rightarrow> True
          | Some t \<Rightarrow> if t = [] then True
              else like (''%'' @ [CHR 0x22] @ t @ [CHR 0x22] @ ''%'') (json_dumps (tags r)))
      \<and> (case search_term of None \<Rightarrow> True
          | Some q \<Rightarrow> if q = [] then True
              else (like (''%'' @ q @ ''%'') (title r)
                    \<or> like (''%'' @ q @ ''%'') (categories r)
                    \<or> like (''%'' @ q @ ''%'') (author r)
                    \<or> like (''%'' @ q @ ''%'') (json_dumps (tags r))
                    \<or> like (''%'' @ q @ ''%'') (description r))))"

text \<open>\<^verbatim>\<open>ORDER BY published_date DESC, scraped_at DESC\<close>; rows that tie keep the
  table order. \<^verbatim>\<open>LIMIT\<close> with a negative number is no limit. The limit is a
  64-bit integer for the database: the bot passes 20, and a number that does not fit is
  outside this model.\<close>

definition order_by_date_desc :: "row list \<Rightarrow> row list" where
  "order_by_date_desc rows = rev (sort_key (\<lambda>r. (published_date r, scraped_at r)) (rev rows))"

definition sql_limit :: "int \<Rightarrow> 'a list \<Rightarrow> 'a list" where
  "sql_limit n xs = (if n < 0 then xs else take (nat n) xs)"

text \<open>\<^verbatim>\<open>LibraryDatabase.search_content\<close>.\<close>

definition search_content ::
  "row list \<Rightarrow> string option \<Rightarrow> string option \<Rightarrow> string option \<Rightarrow> string option \<Rightarrow> int
     \<Rightarrow> article list" where
  "search_content d category author' tag search_term limit =
     map to_article
       (sql_limit limit (order_by_date_desc (filter (where_clause category author' tag search_term) d)))"

text \<open>\<^verbatim>\<open>SELECT MAX(scraped_at) FROM library_content\<close>: \<^verbatim>\<open>NULL\<close> on an empty
  table.\<close>

definition max_scraped_at :: "row list \<Rightarrow> string option" where
  "max_scraped_at d = (case map scraped_at d of [] \<Rightarrow> None | t # ts \<Rightarrow> Some (fold max ts t))"

record stats =
  total_articles :: nat
  total_categories :: nat
  total_authors :: nat
  total_tags :: nat
  last_update :: "string option"

text \<open>\<^verbatim>\<open>LibraryDatabase.get_content_stats\<close>.\<close>

definition get_content_stats :: "row list \<Rightarrow> stats" where
  "get_content_stats d =
     \<lparr> total_articles = length (filter scrape_success d),
       total_categories = length (get_all_categories d),
       total_authors = length (get_all_authors d),
       total_tags = length (get_all_tags_with_counts d),
       last_update = max_scraped_at d \<rparr>"

text \<open>\<^verbatim>\<open>LibraryDatabase.validate_database\<close>, on a table that can be read.\<close>

definition validate_database :: "row list \<Rightarrow> bool" where
  "validate_database d = (0 < length (filter scrape_success d))"

section \<open>scraper.py: classifying and reconciling URLs\<close>

text \<open>
  \<^verbatim>\<open>Scraper.is_article_url\<close>, check by check and in the order of the source.
  The last test is \<^verbatim>\<open>any(x in url for x in ['category/', 'tag/', '?'])\<close>.
\<close>

definition is_article_url :: "string \<Rightarrow> bool" where
  "is_article_url u =
     (if \<not> contains u ''/digital-library'' then False
      else if endswith u ''/digital-library'' \<or> endswith u ''/digital-library/'' then False
      else if contains u ''/digital-library/category/'' then False
      else if contains u ''/digital-library/tag/'' then False
      else if contains u ''?author='' \<or> contains u ''&author='' then False
      else if contains u ''/digital-library?'' then False
      else if contains u ''/digital-library/''
              \<and> \<not> list_ex (\<lambda>x. contains u x) [''category/'', ''tag/'', ''?''] then True
      else False)"

text \<open>The base URL of the site: \<^verbatim>\<open>LIBRARY_BASE_URL\<close> in config.py and the default
  \<^verbatim>\<open>base_url\<close> of the scraper. A content URL is the base, the library path and a
  slug.\<close>

definition LIBRARY_BASE_URL :: string where
  "LIBRARY_BASE_URL = ''https://sacredcommunityproject.org''"

definition article_prefix :: string where
  "article_prefix = LIBRARY_BASE_URL @ ''/digital-library/''"

definition content_url :: "string \<Rightarrow> string" where
  "content_url slug = LIBRARY_BASE_URL @ ''/digital-library/'' @ slug"

text \<open>An entry of the sitemap, as \<^verbatim>\<open>parse_individual_sitemap\<close> builds it.\<close>

record url_data =
  ud_url :: string
  lastmod :: "string option"

text \<open>\<^verbatim>\<open>Scraper.filter_article_urls\<close>.\<close>

definition filter_article_urls :: "url_data list \<Rightarrow> url_data list" where
  "filter_article_urls all_urls = filter (\<lambda>u. is_article_url (ud_url u)) all_urls"

text \<open>\<^verbatim>\<open>SELECT last_modified, scraped_at FROM library_content WHERE url = ?\<close> and
  \<^verbatim>\<open>fetchone()\<close>.\<close>

definition fetchone :: "row list \<Rightarrow> string \<Rightarrow> row option" where
  "fetchone d u = find (\<lambda>r. url r = u) d"

text \<open>
  The loop of \<^verbatim>\<open>check_for_updates\<close> over the article URLs, with its two result
  lists. The test of the source is
  \<^verbatim>\<open>if sitemap_lastmod and sitemap_lastmod != stored_lastmod\<close>.
\<close>

fun check_loop ::
  "row list \<Rightarrow> url_data list \<Rightarrow> url_data list \<Rightarrow> url_data list
     \<Rightarrow> url_data list \<times> url_data list" where
  "check_loop d [] new_articles updated_articles = (new_articles, updated_articles)"
| "check_loop d (u # us) new_articles updated_articles =
     (case fetchone d (ud_url u) of
        None \<Rightarrow> check_loop d us (new_articles @ [u]) updated_articles
      | Some result \<Rightarrow>
          if truthy (lastmod u) \<and> lastmod u \<noteq> last_modified result
          then check_loop d us new_articles (updated_articles @ [u])
          else check_loop d us new_articles updated_articles)"

text \<open>\<^verbatim>\<open>Scraper.check_for_updates\<close>, from the URLs that the sitemap gave.\<close>

definition check_for_updates :: "url_data list \<Rightarrow> row list \<Rightarrow> url_data list" where
  "check_for_updates all_urls d =
     (let article_urls = filter_article_urls all_urls
      in if article_urls = [] then []
         else (case check_loop d article_urls [] [] of
                 (new_articles, updated_articles) \<Rightarrow> new_articles @ updated_articles))"

section \<open>scraper.py: extracting and storing one page\<close>

text \<open>
  What the extractor reads from a parsed page: the text of the first
  \<^verbatim>\<open>h1.entry-title\<close>; the texts of the category links inside the categories block
  (\<^verbatim>\<open>None\<close> without the block); the text of the first link of the author block
  (\<^verbatim>\<open>None\<close> without the block, \<^verbatim>\<open>Some None\<close> for a block without a link); the
  \<^verbatim>\<open>datetime\<close> attribute and the text of the date element; the texts of the tag
  links; the texts of the paragraphs of the content area and of the first block quote.
\<close>

record soup =
  entry_title :: "string option"
  category_links :: "string list option"
  author_link :: "string option option"
  published_on :: "(string option \<times> string) option"
  tag_links :: "string list option"
  content_paragraphs :: "string list option"
  blockquote :: "string option"

definition clip300 :: "string \<Rightarrow> string" where
  "clip300 text = (if 300 < length text then take 300 text @ ''...'' else text)"

definition promotional :: "string \<Rightarrow> bool" where
  "promotional text =
     list_ex (\<lambda>word. contains (py_lower text) word) [''order'', ''buy'', ''purchase'', ''copy today'']"

text \<open>\<^verbatim>\<open>Scraper.extract_description\<close>.\<close>

definition extract_description :: "soup \<Rightarrow> string" where
  "extract_description sp =
     (case (case content_paragraphs sp of None \<Rightarrow> None
            | Some ps \<Rightarrow> find (\<lambda>text. 50 < length text \<and> \<not> promotional text) ps) of
        Some text \<Rightarrow> clip300 text
      | None \<Rightarrow> (case blockquote sp of Some text \<Rightarrow> clip300 text | None \<Rightarrow> []))"

text \<open>The dictionary that \<^verbatim>\<open>extract_metadata\<close> returns.\<close>

record data =
  d_url :: string
  d_last_modified :: "string option"
  d_scrape_success :: bool
  d_title :: string
  d_categories :: string
  d_author :: string
  d_published_date :: string
  d_tags :: "string list"
  d_description :: string

text \<open>
  \<^verbatim>\<open>Scraper.extract_metadata\<close>. The first argument is
  \<^verbatim>\<open>self.archive_dates_map\<close>. The handler at the end of the source catches what the
  HTML library may raise; reading the fields of \<^typ>\<open>soup\<close> raises nothing.
\<close>

definition extract_metadata :: "(string \<rightharpoonup> string) \<Rightarrow> soup \<Rightarrow> url_data \<Rightarrow> data" where
  "extract_metadata archive_dates sp u =
     (let title' = (case entry_title sp of Some t \<Rightarrow> strip t | None \<Rightarrow> ''No title found'');
          categories' = (case category_links sp of
                           None \<Rightarrow> ''Uncategorized''
                         | Some links \<Rightarrow> if links = [] then ''Uncategorized''
                                          else join '', '' (map strip links));
          author' = (case author_link sp of
                       Some (Some a) \<Rightarrow> strip a
                     | _ \<Rightarrow> ''Unknown'');
          page_date = (case published_on sp of
                         None \<Rightarrow> ''Unknown''
                       | Some (datetime, text) \<Rightarrow>
                           (case datetime of
                              Some v \<Rightarrow> if v = [] then strip text else v
                            | None \<Rightarrow> strip text));
          date' = (case archive_dates (ud_url u) of Some v \<Rightarrow> v | None \<Rightarrow> page_date);
          tags' = (case tag_links sp of Some links \<Rightarrow> map strip links | None \<Rightarrow> [])
      in \<lparr> d_url = ud_url u, d_last_modified = lastmod u,
           d_scrape_success = (if title' = ''No title found'' \<or> title' = [] then False else True),
           d_title = title', d_categories = categories', d_author = author',
           d_published_date = date', d_tags = tags',
           d_description = extract_description sp \<rparr>)"

text \<open>
  \<^verbatim>\<open>Scraper.store_data\<close>: \<^verbatim>\<open>INSERT OR REPLACE\<close> deletes the row with the same
  \<^verbatim>\<open>url\<close> and inserts the new one, whose \<^verbatim>\<open>scraped_at\<close> is the column default,
  the time of the write.
\<close>

definition store_data :: "row list \<Rightarrow> data \<Rightarrow> string \<Rightarrow> row list" where
  "store_data d dat now =
     filter (\<lambda>r. url r \<noteq> d_url dat) d @
     [\<lparr> url = d_url dat, title = d_title dat, categories = d_categories dat,
        author = d_author dat, published_date = d_published_date dat, tags = d_tags dat,
        description = d_description dat, last_modified = d_last_modified dat,
        scraped_at = now, scrape_success = d_scrape_success dat \<rparr>]"

section \<open>scraper.py: fetching with retries, the batch loop\<close>

text \<open>
  The outside world of a run: the answer of the site to the \<open>n\<close>-th request of the
  session, for the URL asked, and the time of the database clock after \<open>n\<close> requests.
  \<^verbatim>\<open>session.get\<close> raises on a network error and \<^verbatim>\<open>raise_for_status\<close> on a status
  that is not a success.
\<close>

datatype response = ConnectionError | HttpError | Page soup

fun raises :: "response \<Rightarrow> bool" where
  "raises ConnectionError = True"
| "raises HttpError = True"
| "raises (Page sp) = False"

record world =
  net :: "nat \<Rightarrow> string \<Rightarrow> response"
  clock :: "nat \<Rightarrow> string"

text \<open>What the run does to the outside: requests and waits, in milliseconds.\<close>

datatype event = Get string | Sleep nat

record scraper =
  content :: "row list"
  archive_dates_map :: "string \<rightharpoonup> string"
  errors :: nat
  pages_scraped :: nat
  requests :: nat
  trace :: "event list"

definition max_retries :: nat where
  "max_retries = 3"

definition request_delay :: nat where
  "request_delay = 1500"

text \<open>
  The loop \<^verbatim>\<open>for attempt in range(self.max_retries)\<close> of \<^verbatim>\<open>scrape_page\<close>. A
  loop that ends without a \<^verbatim>\<open>return\<close> gives \<^verbatim>\<open>None\<close>.
\<close>

fun attempts :: "world \<Rightarrow> url_data \<Rightarrow> nat list \<Rightarrow> scraper \<Rightarrow> data option \<times> scraper" where
  "attempts w u [] s = (None, s)"
| "attempts w u (attempt # rest) s =
     (let s1 = s\<lparr> requests := requests s + 1, trace := trace s @ [Get (ud_url u)] \<rparr>
      in case net w (requests s) (ud_url u) of
           Page sp \<Rightarrow> (Some (extract_metadata (archive_dates_map s1) sp u), s1)
         | _ \<Rightarrow> if attempt + 1 < max_retries
                then attempts w u rest (s1\<lparr> trace := trace s1 @ [Sleep 2000] \<rparr>)
                else (None, s1\<lparr> errors := errors s1 + 1 \<rparr>))"

text \<open>\<^verbatim>\<open>Scraper.scrape_page\<close>.\<close>

definition scrape_page :: "world \<Rightarrow> url_data \<Rightarrow> scraper \<Rightarrow> data option \<times> scraper" where
  "scrape_page w u s = attempts w u [0..<max_retries] s"

text \<open>
  The loop over the articles of \<^verbatim>\<open>run_incremental_update\<close> and
  \<^verbatim>\<open>run_full_scrape\<close>, with its counter \<^verbatim>\<open>successful_scrapes\<close>. The dictionary
  of a scraped page is never empty, so \<^verbatim>\<open>if data:\<close> asks whether
  \<^verbatim>\<open>scrape_page\<close> returned one.
\<close>

fun scrape_articles :: "world \<Rightarrow> url_data list \<Rightarrow> nat \<times> scraper \<Rightarrow> nat \<times> scraper" where
  "scrape_articles w [] (successful_scrapes, s) = (successful_scrapes, s)"
| "scrape_articles w (u # us) (successful_scrapes, s) =
     (case scrape_page w u s of
        (None, s1) \<Rightarrow>
          scrape_articles w us (successful_scrapes, s1\<lparr> trace := trace s1 @ [Sleep request_delay] \<rparr>)
      | (Some dat, s1) \<Rightarrow>
          (let s2 = s1\<lparr> content := store_data (content s1) dat (clock w (requests s1)),
                       pages_scraped := pages_scraped s1 + 1 \<rparr>;
               n = (if d_scrape_success dat \<and> d_title dat \<noteq> ''No title found''
                    then successful_scrapes + 1 else successful_scrapes)
           in scrape_articles w us (n, s2\<lparr> trace := trace s2 @ [Sleep request_delay] \<rparr>)))"

text \<open>
  \<^verbatim>\<open>Scraper.run_incremental_update\<close>, from the URLs that the sitemap gave and the
  dates that the archive pages gave.
\<close>

definition run_incremental_update ::
  "world \<Rightarrow> url_data list \<Rightarrow> (string \<rightharpoonup> string) \<Rightarrow> scraper \<Rightarrow> scraper" where
  "run_incremental_update w all_urls archive_dates s =
     (let articles_to_update = check_for_updates all_urls (content s)
      in if articles_to_update = [] then s
         else snd (scrape_articles w articles_to_update
                     (0, s\<lparr> archive_dates_map := archive_dates \<rparr>)))"

section \<open>bot.py: the browsing session\<close>

text \<open>
  The bot opens the database file anew for every query. The file may be unreadable
  (missing table, locked file), and then every query raises.
\<close>

datatype store = Unavailable | Available "row list"

datatype exn = DatabaseError

definition SEARCH_RESULTS_LIMIT :: int where
  "SEARCH_RESULTS_LIMIT = 20"

definition RESULTS_PER_PAGE :: nat where
  "RESULTS_PER_PAGE = 5"

text \<open>\<^verbatim>\<open>search_library\<close> and \<^verbatim>\<open>get_library_stats\<close> of queries.py.\<close>

definition search_library ::
  "store \<Rightarrow> string option \<Rightarrow> string option \<Rightarrow> string option \<Rightarrow> string option \<Rightarrow> int
     \<Rightarrow> exn + article list" where
  "search_library st category author' tag search_term limit =
     (case st of
        Unavailable \<Rightarrow> Inl DatabaseError
      | Available d \<Rightarrow> Inr (search_content d category author' tag search_term limit))"

definition get_library_stats :: "store \<Rightarrow> exn + stats" where
  "get_library_stats st =
     (case st of Unavailable \<Rightarrow> Inl DatabaseError | Available d \<Rightarrow> Inr (get_content_stats d))"

text \<open>The dictionary \<^verbatim>\<open>current_filters\<close>.\<close>

record filters =
  f_category :: "string option"
  f_author :: "string option"
  f_tag :: "string option"
  f_search_term :: "string option"

text \<open>
  What a handler shows: the embed that replaces the message, or an ephemeral notice.
  The embed of a result page carries what \<^verbatim>\<open>show_results\<close> puts into it: the number
  of results, the filters, the articles of the page and the page line (present with more
  than one page).
\<close>

datatype notice = AlreadyFirstPage | AlreadyLastPage

datatype render =
    NoResultsFound
  | ResultsEmbed nat filters "article list" "(nat \<times> nat) option"
  | SearchError
  | WelcomeEmbed stats
  | ResetError
  | Ephemeral notice

text \<open>The state of \<^verbatim>\<open>LibraryView\<close> of bot.py, with the placeholders of its three
  dropdowns.\<close>

record library_view =
  current_filters :: filters
  current_results :: "article list"
  current_page :: nat
  category_placeholder :: string
  author_placeholder :: string
  tag_placeholder :: string

definition initial_view :: library_view where
  "initial_view =
     \<lparr> current_filters = \<lparr> f_category = None, f_author = None, f_tag = None,
                            f_search_term = None \<rparr>,
       current_results = [], current_page = 0,
       category_placeholder = ''Choose a category...'',
       author_placeholder = ''Choose an author...'',
       tag_placeholder = ''Choose a tag...'' \<rparr>"

definition total_pages :: "article list \<Rightarrow> nat" where
  "total_pages rs = (length rs + RESULTS_PER_PAGE - 1) div RESULTS_PER_PAGE"

text \<open>\<^verbatim>\<open>LibraryView.show_results\<close>.\<close>

definition show_results :: "library_view \<Rightarrow> render" where
  "show_results v =
     (if current_results v = [] then NoResultsFound
      else (let start_idx = current_page v * RESULTS_PER_PAGE;
                page_results = take RESULTS_PER_PAGE (drop start_idx (current_results v));
                tp = total_pages (current_results v)
            in ResultsEmbed (length (current_results v)) (current_filters v) page_results
                 (if 1 < tp then Some (current_page v + 1, tp) else None)))"

text \<open>\<^verbatim>\<open>LibraryView.update_results\<close>: the search, the page reset and the display are
  inside the \<^verbatim>\<open>try\<close>; the handler shows the error embed.\<close>

definition update_results :: "store \<Rightarrow> library_view \<Rightarrow> library_view \<times> render" where
  "update_results st v =
     (case search_library st (f_category (current_filters v)) (f_author (current_filters v))
             (f_tag (current_filters v)) (f_search_term (current_filters v))
             SEARCH_RESULTS_LIMIT of
        Inl e \<Rightarrow> (v, SearchError)
      | Inr found \<Rightarrow>
          (let v' = v\<lparr> current_results := found, current_page := 0 \<rparr>
           in (v', show_results v')))"

definition placeholder_text :: "string \<Rightarrow> string \<Rightarrow> string \<Rightarrow> string" where
  "placeholder_text dflt label selected =
     (if selected = ''clear'' then dflt
      else label @ '': '' @ take 80 selected @ (if 80 < length selected then ''...'' else []))"

text \<open>\<^verbatim>\<open>category_callback\<close>, \<^verbatim>\<open>author_callback\<close> and \<^verbatim>\<open>tag_callback\<close>; the
  value of the option ``All ...'' is \<^verbatim>\<open>clear\<close>.\<close>

definition category_callback :: "store \<Rightarrow> string \<Rightarrow> library_view \<Rightarrow> library_view \<times> render" where
  "category_callback st selected v =
     update_results st
       (v\<lparr> current_filters := (current_filters v)
              \<lparr> f_category := (if selected = ''clear'' then None else Some selected) \<rparr>,
           category_placeholder := placeholder_text ''Choose a category...'' ''Category'' selected \<rparr>)"

definition author_callback :: "store \<Rightarrow> string \<Rightarrow> library_view \<Rightarrow> library_view \<times> render" where
  "author_callback st selected v =
     update_results st
       (v\<lparr> current_filters := (current_filters v)
              \<lparr> f_author := (if selected = ''clear'' then None else Some selected) \<rparr>,
           author_placeholder := placeholder_text ''Choose an author...'' ''Author'' selected \<rparr>)"

definition tag_callback :: "store \<Rightarrow> string \<Rightarrow> library_view \<Rightarrow> library_view \<times> render" where
  "tag_callback st selected v =
     update_results st
       (v\<lparr> current_filters := (current_filters v)
              \<lparr> f_tag := (if selected = ''clear'' then None else Some selected) \<rparr>,
           tag_placeholder := placeholder_text ''Choose a tag...'' ''Tag'' selected \<rparr>)"

text \<open>\<^verbatim>\<open>SearchModal.on_submit\<close> of bot.py.\<close>

definition on_submit :: "store \<Rightarrow> string \<Rightarrow> library_view \<Rightarrow> library_view \<times> render" where
  "on_submit st input v =
     update_results st
       (v\<lparr> current_filters := (current_filters v)
              \<lparr> f_search_term := (if input = [] then None else Some input) \<rparr> \<rparr>)"

text \<open>\<^verbatim>\<open>LibraryView.previous_button\<close> and \<^verbatim>\<open>LibraryView.next_button\<close>.\<close>

definition previous_button :: "library_view \<Rightarrow> library_view \<times> render" where
  "previous_button v =
     (if 0 < current_page v
      then (let v' = v\<lparr> current_page := current_page v - 1 \<rparr> in (v', show_results v'))
      else (v, Ephemeral AlreadyFirstPage))"

definition next_button :: "library_view \<Rightarrow> library_view \<times> render" where
  "next_button v =
     (if int (current_page v) < int (total_pages (current_results v)) - 1
      then (let v' = v\<lparr> current_page := current_page v + 1 \<rparr> in (v', show_results v'))
      else (v, Ephemeral AlreadyLastPage))"

text \<open>\<^verbatim>\<open>LibraryView.reset_button\<close>.\<close>

definition reset_button :: "store \<Rightarrow> library_view \<Rightarrow> library_view \<times> render" where
  "reset_button st v =
     (let v' = v\<lparr> current_filters := \<lparr> f_category = None, f_author = None, f_tag = None,
                                        f_search_term = None \<rparr>,
                   current_results := [], current_page := 0,
                   category_placeholder := ''Choose a category...'',
                   author_placeholder := ''Choose an author...'',
                   tag_placeholder := ''Choose a tag...'' \<rparr>
      in case get_library_stats st of
           Inl e \<Rightarrow> (v', ResetError)
         | Inr st' \<Rightarrow> (v', WelcomeEmbed st'))"

section \<open>utils/views/library_view.py: the persistent variant of the session\<close>

text \<open>
  The second \<^verbatim>\<open>LibraryView\<close> searches through two collaborators that it receives,
  \<^verbatim>\<open>rss_parser.search_content\<close> and \<^verbatim>\<open>search_engine.search\<close>; they are parameters
  here, and either may raise. It has a category, an author and a query, and no tag.
\<close>

record 'r collaborators =
  rss_search :: "string \<Rightarrow> string option \<Rightarrow> string option \<Rightarrow> exn + 'r list"
  engine_search :: "'r list \<Rightarrow> string \<Rightarrow> exn + 'r list"

record 'r persistent_view =
  lv_current_category :: "string option"
  lv_current_author :: "string option"
  lv_current_query :: string
  lv_current_results :: "'r list"
  lv_current_page :: nat
  lv_results_per_page :: nat

text \<open>The embed of \<^verbatim>\<open>create_results_embed\<close>: no results, or the page with its footer
  (page number, number of pages, number of results).\<close>

datatype 'r lv_render =
    LvNoResultsFound
  | LvResults "'r list" nat nat nat

text \<open>\<^verbatim>\<open>LibraryView.load_results\<close>: any error of the search leaves the empty list.\<close>

definition load_results :: "'r collaborators \<Rightarrow> 'r persistent_view \<Rightarrow> 'r persistent_view" where
  "load_results co v =
     (case rss_search co (lv_current_query v) (lv_current_category v) (lv_current_author v) of
        Inl e \<Rightarrow> v\<lparr> lv_current_results := [] \<rparr>
      | Inr results \<Rightarrow>
          if lv_current_query v \<noteq> []
          then (case engine_search co results (lv_current_query v) of
                  Inl e \<Rightarrow> v\<lparr> lv_current_results := [] \<rparr>
                | Inr ranked \<Rightarrow> v\<lparr> lv_current_results := ranked \<rparr>)
          else v\<lparr> lv_current_results := results \<rparr>)"

definition create_results_embed :: "'r persistent_view \<Rightarrow> 'r lv_render" where
  "create_results_embed v =
     (if lv_current_results v = [] then LvNoResultsFound
      else (let start_idx = lv_current_page v * lv_results_per_page v;
                page_results = take (lv_results_per_page v) (drop start_idx (lv_current_results v));
                pages = max 1 ((length (lv_current_results v) - 1) div lv_results_per_page v + 1)
            in LvResults page_results (lv_current_page v + 1) pages
                 (length (lv_current_results v))))"

text \<open>
  \<^verbatim>\<open>LibraryView.update_filters\<close>, whose parameters default to \<^verbatim>\<open>None\<close> and are
  assigned only when they are not \<^verbatim>\<open>None\<close>, followed by the display.
\<close>

definition update_filters ::
  "'r collaborators \<Rightarrow> string option \<Rightarrow> string option \<Rightarrow> 'r persistent_view
     \<Rightarrow> 'r persistent_view \<times> 'r lv_render" where
  "update_filters co category author' v =
     (let v1 = (case category of None \<Rightarrow> v | Some c \<Rightarrow> v\<lparr> lv_current_category := Some c \<rparr>);
          v2 = (case author' of None \<Rightarrow> v1 | Some a \<Rightarrow> v1\<lparr> lv_current_author := Some a \<rparr>);
          v3 = load_results co (v2\<lparr> lv_current_page := 0 \<rparr>)
      in (v3, create_results_embed v3))"

text \<open>\<^verbatim>\<open>CategorySelect.callback\<close> and \<^verbatim>\<open>AuthorSelect.callback\<close>; the value of the
  option ``All ...'' is \<^verbatim>\<open>all\<close>.\<close>

definition category_select_callback ::
  "'r collaborators \<Rightarrow> string \<Rightarrow> 'r persistent_view \<Rightarrow> 'r persistent_view \<times> 'r lv_render" where
  "category_select_callback co selected v =
     update_filters co (if selected \<noteq> ''all'' then Some selected else None) None v"

definition author_select_callback ::
  "'r collaborators \<Rightarrow> string \<Rightarrow> 'r persistent_view \<Rightarrow> 'r persistent_view \<times> 'r lv_render" where
  "author_select_callback co selected v =
     update_filters co None (if selected \<noteq> ''all'' then Some selected else None) v"

section \<open>bot.py: the admin commands and their lock\<close>

text \<open>
  \<^verbatim>\<open>update_library_command\<close> and \<^verbatim>\<open>refresh_library_command\<close> differ in the
  argument that they give to the scraper and in the texts of their embeds. A handler is
  a coroutine: it runs without interruption from one \<^verbatim>\<open>await\<close> to the next, and the
  event loop may run other handlers while it awaits. The first stretch goes from the
  invocation to the first \<^verbatim>\<open>send_message\<close>: the role check, the test
  \<^verbatim>\<open>admin_operation_lock.locked()\<close> and, when the lock is free, its acquisition,
  which does not suspend. The second stretch is the scraper, run with the blocking
  \<^verbatim>\<open>subprocess.run\<close>, up to \<^verbatim>\<open>edit_original_response\<close>. The third leaves the
  \<^verbatim>\<open>async with\<close> block and releases the lock.
\<close>

datatype op = Incremental | Full

text \<open>How the subprocess ends: return code zero, another return code with its error
  output, the timeout, or another exception.\<close>

datatype proc_result = Returned0 | ReturnedNonzero string | TimeoutExpired | Raised

datatype admin_embed =
    PermissionDenied
  | OperationInProgress
  | Starting op
  | Complete op stats
  | Failed op string
  | Timeout op
  | UnexpectedError op

datatype pc = Invoked | Sending | Editing admin_embed | Finished

record task =
  t_op :: op
  t_admin :: bool
  t_pc :: pc

record bot =
  admin_operation_lock :: bool
  tasks :: "task list"
  library :: store
  sent :: "(nat \<times> admin_embed) list"

text \<open>The body of the \<^verbatim>\<open>try\<close> inside the lock: the scraper, a parameter that turns
  the library into its next state, and the embed that reports its end.\<close>

definition run_command ::
  "(op \<Rightarrow> store \<Rightarrow> proc_result \<times> store) \<Rightarrow> op \<Rightarrow> store \<Rightarrow> admin_embed \<times> store" where
  "run_command proc c st =
     (case proc c st of
        (Returned0, st') \<Rightarrow>
          (case get_library_stats st' of
             Inr x \<Rightarrow> (Complete c x, st')
           | Inl e \<Rightarrow> (UnexpectedError c, st'))
      | (ReturnedNonzero err, st') \<Rightarrow> (Failed c (take 1000 err), st')
      | (TimeoutExpired, st') \<Rightarrow> (Timeout c, st')
      | (Raised, st') \<Rightarrow> (UnexpectedError c, st'))"

text \<open>One stretch of the handler of task \<open>i\<close>.\<close>

definition step :: "(op \<Rightarrow> store \<Rightarrow> proc_result \<times> store) \<Rightarrow> nat \<Rightarrow> bot \<Rightarrow> bot" where
  "step proc i b =
     (if length (tasks b) \<le> i then b
      else (let t = tasks b ! i
            in case t_pc t of
                 Invoked \<Rightarrow>
                   if \<not> t_admin t
                   then b\<lparr> tasks := (tasks b)[i := t\<lparr> t_pc := Finished \<rparr>],
                           sent := sent b @ [(i, PermissionDenied)] \<rparr>
                   else if admin_operation_lock b
                   then b\<lparr> tasks := (tasks b)[i := t\<lparr> t_pc := Finished \<rparr>],
                           sent := sent b @ [(i, OperationInProgress)] \<rparr>
                   else b\<lparr> admin_operation_lock := True,
                           tasks := (tasks b)[i := t\<lparr> t_pc := Sending \<rparr>],
                           sent := sent b @ [(i, Starting (t_op t))] \<rparr>
               | Sending \<Rightarrow>
                   (case run_command proc (t_op t) (library b) of
                      (e, st') \<Rightarrow> b\<lparr> library := st',
                                      tasks := (tasks b)[i := t\<lparr> t_pc := Editing e \<rparr>] \<rparr>)
               | Editing e \<Rightarrow>
                   b\<lparr> admin_operation_lock := False,
                      tasks := (tasks b)[i := t\<lparr> t_pc := Finished \<rparr>],
                      sent := sent b @ [(i, e)] \<rparr>
               | Finished \<Rightarrow> b))"

text \<open>The event loop runs the stretches in some order, the schedule.\<close>

definition run_schedule ::
  "(op \<Rightarrow> store \<Rightarrow> proc_result \<times> store) \<Rightarrow> nat list \<Rightarrow> bot \<Rightarrow> bot" where
  "run_schedule proc schedule b = fold (step proc) schedule b"

text \<open>A task is in flight from the acquisition of the lock to its release.\<close>

fun in_flight :: "pc \<Rightarrow> bool" where
  "in_flight Invoked = False"
| "in_flight Sending = True"
| "in_flight (Editing e) = True"
| "in_flight Finished = False"

text \<open>The bot at start: the lock free, every command still to be handled.\<close>

definition fresh_bot :: "(op \<times> bool) list \<Rightarrow> store \<Rightarrow> bot" where
  "fresh_bot commands st =
     \<lparr> admin_operation_lock = False,
       tasks = map (\<lambda>(c, a). \<lparr> t_op = c, t_admin = a, t_pc = Invoked \<rparr>) commands,
       library = st, sent = [] \<rparr>"

text \<open>What the bot is for everyone but task \<open>i\<close>: the lock, the library, the other tasks
  and the messages sent to them.\<close>

definition apart_from ::
  "nat \<Rightarrow> bot \<Rightarrow> bool \<times> task list \<times> store \<times> (nat \<times> admin_embed) list" where
  "apart_from i b =
     (admin_operation_lock b,
      (tasks b)[i := \<lparr> t_op = Incremental, t_admin = False, t_pc = Finished \<rparr>],
      library b,
      filter (\<lambda>(k, e). k \<noteq> i) (sent b))"

section \<open>Sample data\<close>

text \<open>A row as the scraper writes it, for a URL, its tags, the time of the write and
  the success flag; a page without a title gets the sentinel title.\<close>

definition sample_row :: "string \<Rightarrow> string list \<Rightarrow> string \<Rightarrow> bool \<Rightarrow> row" where
  "sample_row u ts at ok =
     \<lparr> url = u, title = (if ok then ''On Grief'' else ''No title found''),
       categories = ''Music, Podcasts'', author = ''Ann Lee'',
       published_date = ''2025-01-01'', tags = ts, description = [],
       last_modified = Some ''2025-01-02'', scraped_at = at, scrape_success = ok \<rparr>"

text \<open>What \<^verbatim>\<open>extract_metadata\<close> returns for a page with nothing but, when the flag
  is set, a title.\<close>

definition sample_data :: "string \<Rightarrow> bool \<Rightarrow> data" where
  "sample_data u ok =
     \<lparr> d_url = u, d_last_modified = Some ''2025-01-02'', d_scrape_success = ok,
       d_title = (if ok then ''On Grief'' else ''No title found''),
       d_categories = ''Uncategorized'', d_author = ''Unknown'',
       d_published_date = ''Unknown'', d_tags = [], d_description = [] \<rparr>"

text \<open>A page with a title and nothing else; a site that never answers; a site that
  serves one article and fails for every other URL; a scraper before its first run.\<close>

definition titled_page :: soup where
  "titled_page =
     \<lparr> entry_title = Some ''On Grief'', category_links = None, author_link = None,
       published_on = None, tag_links = None, content_paragraphs = None, blockquote = None \<rparr>"

definition unreachable_site :: world where
  "unreachable_site =
     \<lparr> net = (\<lambda>n u. ConnectionError), clock = (\<lambda>n. ''2025-03-01 10:00:00'') \<rparr>"

definition flaky_site :: world where
  "flaky_site =
     \<lparr> net = (\<lambda>n u. if u = content_url ''song-b'' then Page titled_page else HttpError),
       clock = (\<lambda>n. ''2025-03-01 10:00:00'') \<rparr>"

definition fresh_scraper :: scraper where
  "fresh_scraper =
     \<lparr> content = [], archive_dates_map = Map.empty, errors = 0, pages_scraped = 0,
       requests = 0, trace = [] \<rparr>"

text \<open>Twelve results, and a session that shows them from the first page.\<close>

definition twelve_results :: "article list" where
  "twelve_results =
     map (\<lambda>u. to_article (sample_row (content_url u) [] ''2025-02-01 10:00:00'' True))
       [''a'', ''b'', ''c'', ''d'', ''e'', ''f'', ''g'', ''h'', ''i'', ''j'', ''k'', ''l'']"

definition twelve_view :: library_view where
  "twelve_view = initial_view\<lparr> current_results := twelve_results \<rparr>"

text \<open>For the persistent variant: a search that finds nothing, a search that raises, and
  a session on its third page with the category Music chosen.\<close>

definition quiet_collaborators :: "article collaborators" where
  "quiet_collaborators =
     \<lparr> rss_search = (\<lambda>q c a. Inr []), engine_search = (\<lambda>results q. Inr results) \<rparr>"

definition failing_collaborators :: "article collaborators" where
  "failing_collaborators =
     \<lparr> rss_search = (\<lambda>q c a. Inl DatabaseError), engine_search = (\<lambda>results q. Inr results) \<rparr>"

definition music_view :: "article persistent_view" where
  "music_view =
     \<lparr> lv_current_category = Some ''Music'', lv_current_author = None, lv_current_query = [],
       lv_current_results = twelve_results, lv_current_page = 2, lv_results_per_page = 5 \<rparr>"

text \<open>A table whose tags have the frequencies grief 5, healing 5 and music 1, and a
  table with one record of 25 tags, from \<^verbatim>\<open>y\<close> down to \<^verbatim>\<open>a\<close>.\<close>

definition scenario_table :: "row list" where
  "scenario_table =
     map (\<lambda>u. sample_row u [''healing'', ''grief''] ''2025-02-01 10:00:00'' True)
       [''u1'', ''u2'', ''u3'', ''u4'', ''u5'']
     @ [sample_row ''u6'' [''music''] ''2025-02-01 10:00:00'' True]"

definition alphabet_table :: "row list" where
  "alphabet_table =
     [sample_row ''u1''
        [''y'', ''x'', ''w'', ''v'', ''u'', ''t'', ''s'', ''r'', ''q'', ''p'', ''o'', ''n'', ''m'',
         ''l'', ''k'', ''j'', ''i'', ''h'', ''g'', ''f'', ''e'', ''d'', ''c'', ''b'', ''a'']
        ''2025-02-01 10:00:00'' True]"

text \<open>A scraper process that ends well and leaves the library as it is.\<close>

definition idle_scraper :: "op \<Rightarrow> store \<Rightarrow> proc_result \<times> store" where
  "idle_scraper c st = (Returned0, st)"

section \<open>Failed records are invisible to the queries\<close>

lemma filter_drop_failed:
  "\<not> scrape_success r \<Longrightarrow>
   filter (\<lambda>x. scrape_success x \<and> P x) (xs @ r # ys)
     = filter (\<lambda>x. scrape_success x \<and> P x) (xs @ ys)"
  by simp

lemma where_clause_failed: "\<not> scrape_success r \<Longrightarrow> \<not> where_clause c a t q r"
  by (simp add: where_clause_def)

lemma search_content_drop_failed:
  assumes "\<not> scrape_success r"
  shows "search_content (xs @ r # ys) c a t q n = search_content (xs @ ys) c a t q n"
  using where_clause_failed[OF assms, of c a t q] by (simp add: search_content_def)

lemma get_all_categories_drop_failed:
  assumes "\<not> scrape_success r"
  shows "get_all_categories (xs @ r # ys) = get_all_categories (xs @ ys)"
  unfolding get_all_categories_def by (simp only: filter_drop_failed[OF assms])

lemma get_all_authors_drop_failed:
  assumes "\<not> scrape_success r"
  shows "get_all_authors (xs @ r # ys) = get_all_authors (xs @ ys)"
  unfolding get_all_authors_def by (simp only: filter_drop_failed[OF assms])

lemma get_all_tags_drop_failed:
  assumes "\<not> scrape_success r"
  shows "get_all_tags_with_counts (xs @ r # ys) = get_all_tags_with_counts (xs @ ys)"
  unfolding get_all_tags_with_counts_def by (simp only: filter_drop_failed[OF assms])

lemma count_drop_failed:
  assumes "\<not> scrape_success r"
  shows "length (filter scrape_success (xs @ r # ys)) = length (filter scrape_success (xs @ ys))"
  using assms by simp

text \<open>
  C1. A record stored with \<^verbatim>\<open>scrape_success\<close> false, wherever it sits in the table,
  changes the result of no query: the table with it and the table without it give the
  same search results for every combination of filters and every limit, the same
  categories, authors and top tags, and the same four counts in the statistics.
\<close>

theorem failed_records_invisible:
  assumes "\<not> scrape_success r"
  shows "search_content (xs @ r # ys) c a t q n = search_content (xs @ ys) c a t q n
       \<and> get_all_categories (xs @ r # ys) = get_all_categories (xs @ ys)
       \<and> get_all_authors (xs @ r # ys) = get_all_authors (xs @ ys)
       \<and> get_all_tags_with_counts (xs @ r # ys) = get_all_tags_with_counts (xs @ ys)
       \<and> total_articles (get_content_stats (xs @ r # ys))
           = total_articles (get_content_stats (xs @ ys))
       \<and> total_categories (get_content_stats (xs @ r # ys))
           = total_categories (get_content_stats (xs @ ys))
       \<and> total_authors (get_content_stats (xs @ r # ys))
           = total_authors (get_content_stats (xs @ ys))
       \<and> total_tags (get_content_stats (xs @ r # ys))
           = total_tags (get_content_stats (xs @ ys))"
  by (simp add: get_content_stats_def search_content_drop_failed[OF assms]
        get_all_categories_drop_failed[OF assms] get_all_authors_drop_failed[OF assms]
        get_all_tags_drop_failed[OF assms] count_drop_failed[OF assms] del: filter_append filter.simps)

theorem failed_records_invisible_witness:
  "\<not> scrape_success (sample_row ''u2'' [''grief''] ''2025-03-01 10:00:00'' False)
   \<and> search_content ([sample_row ''u1'' [''music''] ''2025-02-01 10:00:00'' True]
        @ sample_row ''u2'' [''grief''] ''2025-03-01 10:00:00'' False # []) None None None None 20
     = [to_article (sample_row ''u1'' [''music''] ''2025-02-01 10:00:00'' True)]
   \<and> get_all_tags_with_counts ([sample_row ''u1'' [''music''] ''2025-02-01 10:00:00'' True]
        @ sample_row ''u2'' [''grief''] ''2025-03-01 10:00:00'' False # []) = [''music'']
   \<and> total_articles (get_content_stats ([sample_row ''u1'' [''music''] ''2025-02-01 10:00:00'' True]
        @ sample_row ''u2'' [''grief''] ''2025-03-01 10:00:00'' False # [])) = 1"
proof -
  have f: "\<not> scrape_success (sample_row ''u2'' [''grief''] ''2025-03-01 10:00:00'' False)"
    by (simp add: sample_row_def)
  have a: "search_content ([sample_row ''u1'' [''music''] ''2025-02-01 10:00:00'' True] @ [])
             None None None None 20
           = [to_article (sample_row ''u1'' [''music''] ''2025-02-01 10:00:00'' True)]"
    by (simp add: search_content_def where_clause_def sample_row_def sql_limit_def
          order_by_date_desc_def)
  have b: "get_all_tags_with_counts
             ([sample_row ''u1'' [''music''] ''2025-02-01 10:00:00'' True] @ []) = [''music'']"
    by (simp add: get_all_tags_with_counts_def sample_row_def count_tags_def
          sorted_by_popularity_def)
  have c: "total_articles (get_content_stats
             ([sample_row ''u1'' [''music''] ''2025-02-01 10:00:00'' True] @ [])) = 1"
    by (simp add: get_content_stats_def sample_row_def)
  from failed_records_invisible[OF f,
         of "[sample_row ''u1'' [''music''] ''2025-02-01 10:00:00'' True]" "[]"
            None None None None 20]
  show ?thesis using f a b c by (simp only:) simp
qed

section \<open>Reconciling the sitemap with the table\<close>

lemma check_loop_filters:
  "check_loop d us new_articles updated_articles
     = (new_articles @ filter (\<lambda>u. fetchone d (ud_url u) = None) us,
        updated_articles @
          filter (\<lambda>u. case fetchone d (ud_url u) of None \<Rightarrow> False
                       | Some r \<Rightarrow> truthy (lastmod u) \<and> lastmod u \<noteq> last_modified r) us)"
  by (induction us arbitrary: new_articles updated_articles) (auto split: option.splits)

lemma check_for_updates_filters:
  "check_for_updates all_urls d
     = filter (\<lambda>u. fetchone d (ud_url u) = None) (filter_article_urls all_urls)
       @ filter (\<lambda>u. case fetchone d (ud_url u) of None \<Rightarrow> False
                     | Some r \<Rightarrow> truthy (lastmod u) \<and> lastmod u \<noteq> last_modified r)
           (filter_article_urls all_urls)"
  by (simp add: check_for_updates_def check_loop_filters Let_def)

lemma changed_iff:
  "(case fetchone d k of None \<Rightarrow> False
    | Some r \<Rightarrow> truthy m \<and> m \<noteq> last_modified r)
   \<longleftrightarrow> (\<exists>r v. fetchone d k = Some r \<and> m = Some v \<and> v \<noteq> [] \<and> last_modified r \<noteq> Some v)"
  by (cases "fetchone d k"; cases m) auto

lemma check_for_updates_first_run:
  "check_for_updates all_urls [] = filter_article_urls all_urls"
  by (simp add: check_for_updates_filters fetchone_def)

text \<open>
  C2, amended. For every sitemap and every table, \<^verbatim>\<open>check_for_updates\<close> selects,
  among the entries of the sitemap that classify as articles, exactly those whose URL has
  no record and those whose record has a \<^verbatim>\<open>last_modified\<close> other than the
  \<^verbatim>\<open>lastmod\<close> of the entry, provided the entry has a non-empty \<^verbatim>\<open>lastmod\<close>; an
  entry without one is selected only when it is new. The new entries come first, then the
  changed ones, each group in the order of the sitemap; on an empty table every article
  entry is selected. For article URLs A (no record), B (record with the \<^verbatim>\<open>lastmod\<close>
  of the entry) and C (record with another \<^verbatim>\<open>last_modified\<close> than the non-empty
  \<^verbatim>\<open>lastmod\<close> of the entry) the selection is A and C. The sitemap \<open>all_urls\<close> and
  the table \<open>t\<close> of the general part are any, apart from the table \<open>d\<close> of the
  scenario.
\<close>

theorem check_for_updates_selects:
  assumes "is_article_url a" and "is_article_url b" and "is_article_url c"
    and "fetchone d a = None"
    and "fetchone d b = Some rb" and "last_modified rb = mb"
    and "fetchone d c = Some rc" and "mc \<noteq> []" and "last_modified rc \<noteq> Some mc"
  shows "(u \<in> set (check_for_updates all_urls t) \<longleftrightarrow>
            u \<in> set all_urls \<and> is_article_url (ud_url u)
            \<and> (fetchone t (ud_url u) = None
               \<or> (\<exists>r v. fetchone t (ud_url u) = Some r \<and> lastmod u = Some v \<and> v \<noteq> []
                         \<and> last_modified r \<noteq> Some v)))
       \<and> check_for_updates all_urls t
           = filter (\<lambda>u. fetchone t (ud_url u) = None) (filter_article_urls all_urls)
             @ filter (\<lambda>u. \<exists>r v. fetchone t (ud_url u) = Some r \<and> lastmod u = Some v
                              \<and> v \<noteq> [] \<and> last_modified r \<noteq> Some v)
                 (filter_article_urls all_urls)
       \<and> filter_article_urls all_urls = filter (\<lambda>u. is_article_url (ud_url u)) all_urls
       \<and> check_for_updates all_urls [] = filter (\<lambda>u. is_article_url (ud_url u)) all_urls
       \<and> check_for_updates
           [\<lparr> ud_url = a, lastmod = ma \<rparr>, \<lparr> ud_url = b, lastmod = mb \<rparr>,
            \<lparr> ud_url = c, lastmod = Some mc \<rparr>] d
         = [\<lparr> ud_url = a, lastmod = ma \<rparr>, \<lparr> ud_url = c, lastmod = Some mc \<rparr>]"
proof (intro conjI)
  show "u \<in> set (check_for_updates all_urls t) \<longleftrightarrow>
            u \<in> set all_urls \<and> is_article_url (ud_url u)
            \<and> (fetchone t (ud_url u) = None
               \<or> (\<exists>r v. fetchone t (ud_url u) = Some r \<and> lastmod u = Some v \<and> v \<noteq> []
                         \<and> last_modified r \<noteq> Some v))"
    unfolding check_for_updates_filters set_append set_filter Un_iff mem_Collect_eq changed_iff
      filter_article_urls_def
    by blast
  show "check_for_updates all_urls t
           = filter (\<lambda>u. fetchone t (ud_url u) = None) (filter_article_urls all_urls)
             @ filter (\<lambda>u. \<exists>r v. fetchone t (ud_url u) = Some r \<and> lastmod u = Some v
                              \<and> v \<noteq> [] \<and> last_modified r \<noteq> Some v)
                 (filter_article_urls all_urls)"
    by (simp only: check_for_updates_filters changed_iff)
  show "filter_article_urls all_urls = filter (\<lambda>u. is_article_url (ud_url u)) all_urls"
    by (rule filter_article_urls_def)
  show "check_for_updates all_urls [] = filter (\<lambda>u. is_article_url (ud_url u)) all_urls"
    by (simp only: check_for_updates_first_run filter_article_urls_def)
  show "check_for_updates
           [\<lparr> ud_url = a, lastmod = ma \<rparr>, \<lparr> ud_url = b, lastmod = mb \<rparr>,
            \<lparr> ud_url = c, lastmod = Some mc \<rparr>] d
         = [\<lparr> ud_url = a, lastmod = ma \<rparr>, \<lparr> ud_url = c, lastmod = Some mc \<rparr>]"
    using assms by (simp add: check_for_updates_filters filter_article_urls_def)
qed

lemma sample_urls_are_articles:
  "is_article_url (content_url ''song-a'')"
  "is_article_url (content_url ''song-b'')"
  "is_article_url (content_url ''song-c'')"
  by code_simp+

lemma sample_urls_differ:
  "content_url ''song-b'' \<noteq> content_url ''song-a''"
  "content_url ''song-c'' \<noteq> content_url ''song-a''"
  "content_url ''song-b'' \<noteq> content_url ''song-c''"
  by (simp_all add: content_url_def)

theorem check_for_updates_selects_witness:
  "is_article_url (content_url ''song-a'') \<and> is_article_url (content_url ''song-b'')
   \<and> is_article_url (content_url ''song-c'')
   \<and> fetchone [sample_row (content_url ''song-b'') [] ''2025-02-01 10:00:00'' True,
                sample_row (content_url ''song-c'') [] ''2025-02-01 10:00:05'' True]
        (content_url ''song-a'') = None
   \<and> check_for_updates
        [\<lparr> ud_url = content_url ''song-a'', lastmod = Some ''2025-01-09'' \<rparr>,
         \<lparr> ud_url = content_url ''song-b'', lastmod = Some ''2025-01-02'' \<rparr>,
         \<lparr> ud_url = content_url ''song-c'', lastmod = Some ''2025-01-07'' \<rparr>]
        [sample_row (content_url ''song-b'') [] ''2025-02-01 10:00:00'' True,
         sample_row (content_url ''song-c'') [] ''2025-02-01 10:00:05'' True]
      = [\<lparr> ud_url = content_url ''song-a'', lastmod = Some ''2025-01-09'' \<rparr>,
         \<lparr> ud_url = content_url ''song-c'', lastmod = Some ''2025-01-07'' \<rparr>]
   \<and> check_for_updates
        [\<lparr> ud_url = content_url ''song-a'', lastmod = None \<rparr>,
         \<lparr> ud_url = LIBRARY_BASE_URL @ ''/digital-library'', lastmod = None \<rparr>] []
      = [\<lparr> ud_url = content_url ''song-a'', lastmod = None \<rparr>]"
proof -
  let ?d = "[sample_row (content_url ''song-b'') [] ''2025-02-01 10:00:00'' True,
             sample_row (content_url ''song-c'') [] ''2025-02-01 10:00:05'' True]"
  let ?first = "[\<lparr> ud_url = content_url ''song-a'', lastmod = None \<rparr>,
                 \<lparr> ud_url = LIBRARY_BASE_URL @ ''/digital-library'', lastmod = None \<rparr>]"
  have fa: "fetchone ?d (content_url ''song-a'') = None"
    using sample_urls_differ by (simp add: fetchone_def sample_row_def)
  have fb: "fetchone ?d (content_url ''song-b'')
              = Some (sample_row (content_url ''song-b'') [] ''2025-02-01 10:00:00'' True)"
    by (simp add: fetchone_def sample_row_def)
  have mb: "last_modified (sample_row (content_url ''song-b'') [] ''2025-02-01 10:00:00'' True)
              = Some ''2025-01-02''"
    by (simp add: sample_row_def)
  have fc: "fetchone ?d (content_url ''song-c'')
              = Some (sample_row (content_url ''song-c'') [] ''2025-02-01 10:00:05'' True)"
    using sample_urls_differ by (simp add: fetchone_def sample_row_def)
  have ne: "(''2025-01-07'' :: string) \<noteq> []" by simp
  have mc: "last_modified (sample_row (content_url ''song-c'') [] ''2025-02-01 10:00:05'' True)
              \<noteq> Some ''2025-01-07''"
    by (simp add: sample_row_def)
  note w = check_for_updates_selects[OF sample_urls_are_articles fa fb mb fc ne mc,
             of _ ?first _ "Some ''2025-01-09''"]
  from w have scenario: "check_for_updates
        [\<lparr> ud_url = content_url ''song-a'', lastmod = Some ''2025-01-09'' \<rparr>,
         \<lparr> ud_url = content_url ''song-b'', lastmod = Some ''2025-01-02'' \<rparr>,
         \<lparr> ud_url = content_url ''song-c'', lastmod = Some ''2025-01-07'' \<rparr>] ?d
      = [\<lparr> ud_url = content_url ''song-a'', lastmod = Some ''2025-01-09'' \<rparr>,
         \<lparr> ud_url = content_url ''song-c'', lastmod = Some ''2025-01-07'' \<rparr>]"
    by blast
  from w have "check_for_updates ?first [] = filter (\<lambda>u. is_article_url (ud_url u)) ?first"
    by blast
  moreover have "\<not> is_article_url (LIBRARY_BASE_URL @ ''/digital-library'')"
    by code_simp
  ultimately have first: "check_for_updates ?first []
                            = [\<lparr> ud_url = content_url ''song-a'', lastmod = None \<rparr>]"
    using sample_urls_are_articles(1) by simp
  from sample_urls_are_articles fa scenario first show ?thesis by (simp only: simp_thms)
qed

text \<open>
  The sentence of the specification fails where the sitemap gives no \<^verbatim>\<open>lastmod\<close> for a URL whose
  record has one: the two differ, and the entry is skipped.
\<close>

theorem check_for_updates_skips_dropped_lastmod:
  "is_article_url (content_url ''song-b'')
   \<and> fetchone [sample_row (content_url ''song-b'') [] ''2025-02-01 10:00:00'' True]
        (content_url ''song-b'')
      = Some (sample_row (content_url ''song-b'') [] ''2025-02-01 10:00:00'' True)
   \<and> last_modified (sample_row (content_url ''song-b'') [] ''2025-02-01 10:00:00'' True)
      \<noteq> lastmod \<lparr> ud_url = content_url ''song-b'', lastmod = None \<rparr>
   \<and> check_for_updates [\<lparr> ud_url = content_url ''song-b'', lastmod = None \<rparr>]
        [sample_row (content_url ''song-b'') [] ''2025-02-01 10:00:00'' True] = []"
  using sample_urls_are_articles(2)
  by (simp add: check_for_updates_def filter_article_urls_def fetchone_def sample_row_def)

section \<open>Retries and the batch loop\<close>

lemma raises_case:
  "raises r \<Longrightarrow> (case r of ConnectionError \<Rightarrow> g | HttpError \<Rightarrow> g | Page sp \<Rightarrow> f sp) = g"
  by (cases r) simp_all

lemma attempts_exhausted:
  assumes "raises (net w (requests s) (ud_url u))"
    and "raises (net w (requests s + 1) (ud_url u))"
    and "raises (net w (requests s + 2) (ud_url u))"
  shows "scrape_page w u s
         = (None, s\<lparr> requests := requests s + 3,
                     trace := trace s @ [Get (ud_url u), Sleep 2000, Get (ud_url u), Sleep 2000,
                                         Get (ud_url u)],
                     errors := errors s + 1 \<rparr>)"
proof -
  have r: "[0..<max_retries] = [0, 1, 2]"
    by (simp add: max_retries_def upt_rec)
  show ?thesis
    unfolding scrape_page_def r
    using assms by (simp add: raises_case Let_def max_retries_def numeral_3_eq_3 add.commute)
qed

lemma attempts_bounds:
  "requests (snd (attempts w u as s)) \<le> requests s + length as
   \<and> content (snd (attempts w u as s)) = content s
   \<and> archive_dates_map (snd (attempts w u as s)) = archive_dates_map s
   \<and> pages_scraped (snd (attempts w u as s)) = pages_scraped s
   \<and> errors (snd (attempts w u as s)) \<le> errors s + 1"
proof (induction as arbitrary: s)
  case Nil
  then show ?case by simp
next
  case (Cons a as)
  let ?s2 = "s\<lparr> requests := requests s + 1, trace := trace s @ [Get (ud_url u), Sleep 2000] \<rparr>"
  from Cons[of ?s2] show ?case
    by (cases "net w (requests s) (ud_url u)") (auto simp: Let_def)
qed

lemma attempts_trace_grows:
  "prefix (trace s) (trace (snd (attempts w u as s)))"
proof (induction as arbitrary: s)
  case Nil
  then show ?case by simp
next
  case (Cons a as)
  let ?s2 = "s\<lparr> requests := requests s + 1, trace := trace s @ [Get (ud_url u), Sleep 2000] \<rparr>"
  from Cons[of ?s2] have "prefix (trace s) (trace (snd (attempts w u as ?s2)))"
    by (auto dest: append_prefixD)
  then show ?case
    by (cases "net w (requests s) (ud_url u)") (auto simp: Let_def)
qed

lemma attempts_trace:
  "prefix (trace s @ [Get (ud_url u)]) (trace (snd (attempts w u (a # as) s)))"
proof -
  let ?s2 = "s\<lparr> requests := requests s + 1, trace := trace s @ [Get (ud_url u), Sleep 2000] \<rparr>"
  have "prefix ((trace s @ [Get (ud_url u)]) @ [Sleep 2000]) (trace (snd (attempts w u as ?s2)))"
    using attempts_trace_grows[of ?s2 w u as] by simp
  then have "prefix (trace s @ [Get (ud_url u)]) (trace (snd (attempts w u as ?s2)))"
    by (rule append_prefixD)
  then show ?thesis
    by (cases "net w (requests s) (ud_url u)") (auto simp: Let_def)
qed

lemma scrape_page_bounds:
  "requests (snd (scrape_page w u s)) \<le> requests s + 3
   \<and> content (snd (scrape_page w u s)) = content s
   \<and> errors (snd (scrape_page w u s)) \<le> errors s + 1"
  using attempts_bounds[of w u "[0..<max_retries]" s]
  by (simp add: scrape_page_def max_retries_def)

lemma scrape_page_trace:
  "prefix (trace s @ [Get (ud_url u)]) (trace (snd (scrape_page w u s)))"
proof -
  have "[0..<max_retries] = 0 # [1, 2]" by (simp add: max_retries_def upt_rec)
  then show ?thesis unfolding scrape_page_def by (simp only: attempts_trace)
qed

text \<open>One turn of the loop: whatever the page gave, the loop goes on with the rest.\<close>

lemma scrape_articles_turn:
  assumes "scrape_page w u s = (r, s1)"
  obtains m s' where "scrape_articles w (u # us) (n, s) = scrape_articles w us (m, s')"
    and "prefix (trace s1) (trace s')"
proof (cases r)
  case None
  let ?s' = "s1\<lparr> trace := trace s1 @ [Sleep request_delay] \<rparr>"
  have "scrape_articles w (u # us) (n, s) = scrape_articles w us (n, ?s')"
    using assms None by simp
  moreover have "prefix (trace s1) (trace ?s')" by simp
  ultimately show ?thesis by (rule that)
next
  case (Some dat)
  let ?s2 = "s1\<lparr> content := store_data (content s1) dat (clock w (requests s1)),
                   pages_scraped := pages_scraped s1 + 1 \<rparr>"
  let ?s' = "?s2\<lparr> trace := trace ?s2 @ [Sleep request_delay] \<rparr>"
  let ?m = "if d_scrape_success dat \<and> d_title dat \<noteq> ''No title found'' then n + 1 else n"
  have "scrape_articles w (u # us) (n, s) = scrape_articles w us (?m, ?s')"
    using assms Some by (simp add: Let_def)
  moreover have "prefix (trace s1) (trace ?s')" by simp
  ultimately show ?thesis by (rule that)
qed

lemma scrape_articles_trace_grows:
  "prefix (trace s) (trace (snd (scrape_articles w us (n, s))))"
proof (induction us arbitrary: n s)
  case Nil
  then show ?case by simp
next
  case (Cons u us)
  obtain r s1 where sp: "scrape_page w u s = (r, s1)" by (cases "scrape_page w u s")
  from scrape_page_trace[of s u w] sp have p1: "prefix (trace s) (trace s1)"
    by (auto dest: append_prefixD)
  from sp obtain m s' where e: "scrape_articles w (u # us) (n, s) = scrape_articles w us (m, s')"
    and p2: "prefix (trace s1) (trace s')" by (rule scrape_articles_turn)
  have p3: "prefix (trace s') (trace (snd (scrape_articles w us (m, s'))))"
    by (rule Cons.IH)
  from p1 p2 p3 have "prefix (trace s) (trace (snd (scrape_articles w us (m, s'))))"
    by (meson prefix_order.order_trans)
  with e show ?case by simp
qed

lemma scrape_articles_requests_all:
  "list_all (\<lambda>x. Get (ud_url x) \<in> set (trace (snd (scrape_articles w us (n, s))))) us"
proof (induction us arbitrary: n s)
  case Nil
  then show ?case by simp
next
  case (Cons u us)
  obtain r s1 where sp: "scrape_page w u s = (r, s1)" by (cases "scrape_page w u s")
  from scrape_page_trace[of s u w] sp have g: "Get (ud_url u) \<in> set (trace s1)"
    by (auto simp: prefix_def)
  from sp obtain m s' where e: "scrape_articles w (u # us) (n, s) = scrape_articles w us (m, s')"
    and p: "prefix (trace s1) (trace s')" by (rule scrape_articles_turn)
  from p scrape_articles_trace_grows[of s' w us m]
  have "prefix (trace s1) (trace (snd (scrape_articles w us (m, s'))))"
    by (rule prefix_order.order_trans)
  with g have "Get (ud_url u) \<in> set (trace (snd (scrape_articles w us (m, s'))))"
    by (auto simp: prefix_def)
  moreover have "list_all (\<lambda>x. Get (ud_url x) \<in> set (trace (snd (scrape_articles w us (m, s'))))) us"
    by (rule Cons.IH)
  ultimately show ?case unfolding e by simp
qed

text \<open>
  C3, amended. \<^verbatim>\<open>scrape_page\<close> requests a URL at most three times. When the three
  requests fail it has waited two seconds after the first and after the second, it adds
  one to the error counter and returns \<^verbatim>\<open>None\<close>; the table is as it was, no
  record is written for the URL, and the loop waits the request delay and goes on with
  the rest of the batch. Every URL of a batch is requested, whatever happened to the
  URLs before it.
\<close>

theorem exhausted_fetch_is_counted_not_stored:
  assumes "raises (net w (requests s) (ud_url u))"
    and "raises (net w (requests s + 1) (ud_url u))"
    and "raises (net w (requests s + 2) (ud_url u))"
  shows "scrape_page w u s
           = (None, s\<lparr> requests := requests s + 3,
                       trace := trace s @ [Get (ud_url u), Sleep 2000, Get (ud_url u),
                                           Sleep 2000, Get (ud_url u)],
                       errors := errors s + 1 \<rparr>)
       \<and> content (snd (scrape_page w u s)) = content s
       \<and> scrape_articles w (u # us) (n, s)
           = scrape_articles w us
               (n, s\<lparr> requests := requests s + 3,
                      trace := trace s @ [Get (ud_url u), Sleep 2000, Get (ud_url u),
                                          Sleep 2000, Get (ud_url u), Sleep request_delay],
                      errors := errors s + 1 \<rparr>)
       \<and> requests (snd (scrape_page w' u' s')) \<le> requests s' + 3
       \<and> errors (snd (scrape_page w' u' s')) \<le> errors s' + 1
       \<and> list_all (\<lambda>x. Get (ud_url x) \<in> set (trace (snd (scrape_articles w' us' (n', s'))))) us'"
proof -
  note e = attempts_exhausted[OF assms]
  have "scrape_articles w (u # us) (n, s)
           = scrape_articles w us
               (n, s\<lparr> requests := requests s + 3,
                      trace := trace s @ [Get (ud_url u), Sleep 2000, Get (ud_url u),
                                          Sleep 2000, Get (ud_url u), Sleep request_delay],
                      errors := errors s + 1 \<rparr>)"
    by (simp add: e) (intro arg_cong[where f="scrape_articles w us"] arg_cong2[where f=Pair] refl
          scraper.equality; simp)
  moreover have "content (snd (scrape_page w u s)) = content s"
    by (simp add: e)
  ultimately show ?thesis
    using e scrape_page_bounds[of w' u' s'] scrape_articles_requests_all[of w' us' n' s']
    by (simp only: simp_thms)
qed

theorem exhausted_fetch_is_counted_not_stored_witness:
  "raises (net flaky_site (requests fresh_scraper) (content_url ''song-a''))
   \<and> raises (net flaky_site (requests fresh_scraper + 1) (content_url ''song-a''))
   \<and> raises (net flaky_site (requests fresh_scraper + 2) (content_url ''song-a''))
   \<and> map url (content (snd (scrape_articles flaky_site
        [\<lparr> ud_url = content_url ''song-a'', lastmod = None \<rparr>,
         \<lparr> ud_url = content_url ''song-b'', lastmod = None \<rparr>] (0, fresh_scraper))))
      = [content_url ''song-b'']
   \<and> errors (snd (scrape_articles flaky_site
        [\<lparr> ud_url = content_url ''song-a'', lastmod = None \<rparr>,
         \<lparr> ud_url = content_url ''song-b'', lastmod = None \<rparr>] (0, fresh_scraper))) = 1
   \<and> fst (scrape_articles flaky_site
        [\<lparr> ud_url = content_url ''song-a'', lastmod = None \<rparr>,
         \<lparr> ud_url = content_url ''song-b'', lastmod = None \<rparr>] (0, fresh_scraper)) = 1"
proof -
  let ?a = "\<lparr> ud_url = content_url ''song-a'', lastmod = None \<rparr>"
  let ?b = "\<lparr> ud_url = content_url ''song-b'', lastmod = None \<rparr>"
  let ?s' = "fresh_scraper\<lparr> requests := requests fresh_scraper + 3,
                      trace := trace fresh_scraper @ [Get (ud_url ?a), Sleep 2000, Get (ud_url ?a),
                                          Sleep 2000, Get (ud_url ?a), Sleep request_delay],
                      errors := errors fresh_scraper + 1 \<rparr>"
  have h0: "raises (net flaky_site (requests fresh_scraper) (ud_url ?a))"
    by code_simp
  have h1: "raises (net flaky_site (requests fresh_scraper + 1) (ud_url ?a))"
    by code_simp
  have h2: "raises (net flaky_site (requests fresh_scraper + 2) (ud_url ?a))"
    by code_simp
  have rest: "map url (content (snd (scrape_articles flaky_site [?b] (0, ?s')))) = [content_url ''song-b'']
     \<and> errors (snd (scrape_articles flaky_site [?b] (0, ?s'))) = 1
     \<and> fst (scrape_articles flaky_site [?b] (0, ?s')) = 1"
    by code_simp
  from exhausted_fetch_is_counted_not_stored[OF h0 h1 h2, of "[?b]" 0]
  have "scrape_articles flaky_site [?a, ?b] (0, fresh_scraper) = scrape_articles flaky_site [?b] (0, ?s')"
    by (simp only:)
  with rest h0 h1 h2 show ?thesis by simp
qed

text \<open>
  The sentence of the specification fails on the record: after three failed requests the table holds
  no row for the URL, neither a failed one nor any other.
\<close>

theorem exhausted_fetch_leaves_no_record:
  "raises (net unreachable_site 0 (content_url ''song-a''))
   \<and> raises (net unreachable_site 1 (content_url ''song-a''))
   \<and> raises (net unreachable_site 2 (content_url ''song-a''))
   \<and> content (snd (scrape_articles unreachable_site
        [\<lparr> ud_url = content_url ''song-a'', lastmod = None \<rparr>] (0, fresh_scraper))) = []
   \<and> errors (snd (scrape_articles unreachable_site
        [\<lparr> ud_url = content_url ''song-a'', lastmod = None \<rparr>] (0, fresh_scraper))) = 1"
  by code_simp

section \<open>The URL classifier\<close>

lemma content_url_prefix: "content_url slug = article_prefix @ slug"
  by (simp add: content_url_def article_prefix_def)

lemma sublist_append_last:
  assumes "c \<notin> set s"
  shows "sublist (q @ [c]) (B @ s) \<longleftrightarrow> sublist (q @ [c]) B"
proof
  assume "sublist (q @ [c]) (B @ s)"
  then obtain ps ss where e: "B @ s = (ps @ q @ [c]) @ ss" by (auto simp: sublist_def)
  then obtain us where
    d: "(B @ us = ps @ q @ [c] \<and> s = us @ ss) \<or> (B = (ps @ q @ [c]) @ us \<and> us @ s = ss)"
    unfolding append_eq_append_conv2 by blast
  show "sublist (q @ [c]) B"
  proof (cases "us = []")
    case True
    with d have "B = ps @ (q @ [c]) @ [] \<or> B = ps @ (q @ [c]) @ us" by auto
    then show ?thesis unfolding sublist_def by blast
  next
    case False
    then obtain vs v where us: "us = vs @ [v]" by (cases us rule: rev_cases) auto
    from d show ?thesis
    proof
      assume a: "B @ us = ps @ q @ [c] \<and> s = us @ ss"
      with us have "(B @ vs) @ [v] = (ps @ q) @ [c]" by simp
      then have "v = c" by (simp only: append1_eq_conv)
      with us a assms show ?thesis by auto
    next
      assume "B = (ps @ q @ [c]) @ us \<and> us @ s = ss"
      then have "B = ps @ (q @ [c]) @ us" by simp
      then show ?thesis unfolding sublist_def by blast
    qed
  qed
next
  assume "sublist (q @ [c]) B"
  then obtain ps ss where "B = ps @ (q @ [c]) @ ss" by (auto simp: sublist_def)
  then have "B @ s = ps @ (q @ [c]) @ (ss @ s)" by simp
  then show "sublist (q @ [c]) (B @ s)" unfolding sublist_def by blast
qed

lemma sublist_append_first:
  assumes "c \<notin> set B"
  shows "sublist (c # q) (B @ s) \<longleftrightarrow> sublist (c # q) s"
proof -
  have "sublist (rev q @ [c]) (rev s @ rev B) \<longleftrightarrow> sublist (rev q @ [c]) (rev s)"
    by (rule sublist_append_last) (use assms in simp)
  then have "sublist (rev (c # q)) (rev (B @ s)) \<longleftrightarrow> sublist (rev (c # q)) (rev s)"
    by simp
  then show ?thesis by (simp only: sublist_rev)
qed

lemma sublist_append_mono: "sublist p B \<Longrightarrow> sublist p (B @ s)"
proof -
  assume "sublist p B"
  then obtain ps ss where "B = ps @ p @ ss" by (auto simp: sublist_def)
  then have "B @ s = ps @ p @ (ss @ s)" by simp
  then show ?thesis unfolding sublist_def by blast
qed

lemma sublist_has_char: "sublist p s \<Longrightarrow> c \<in> set p \<Longrightarrow> c \<in> set s"
  by (auto simp: sublist_def)

lemma prefix_facts:
  "\<not> contains article_prefix ''/digital-library/category/''"
  "\<not> contains article_prefix ''/digital-library/tag/''"
  "\<not> contains article_prefix ''category/''"
  "\<not> contains article_prefix ''tag/''"
  "contains article_prefix ''/digital-library''"
  "contains article_prefix ''/digital-library/''"
  "CHR ''?'' \<notin> set article_prefix"
  "CHR ''&'' \<notin> set article_prefix"
  "article_prefix \<noteq> []"
  "last article_prefix = CHR ''/''"
  by (simp_all add: contains_def article_prefix_def LIBRARY_BASE_URL_def sublist_code)


lemma contains_prefix_slash:
  assumes "CHR ''/'' \<notin> set slug"
  shows "contains (article_prefix @ slug) (q @ [CHR ''/'']) = contains article_prefix (q @ [CHR ''/''])"
  unfolding contains_def using assms by (rule sublist_append_last)

lemma no_question:
  assumes "CHR ''?'' \<notin> set slug" "CHR ''?'' \<in> set p"
  shows "\<not> contains (article_prefix @ slug) p"
proof
  assume "contains (article_prefix @ slug) p"
  then have "CHR ''?'' \<in> set (article_prefix @ slug)"
    unfolding contains_def using assms(2) by (rule sublist_has_char)
  with assms(1) prefix_facts(7) show False by simp
qed

lemma no_amp_author:
  assumes "\<not> contains slug ''&author=''"
  shows "\<not> contains (article_prefix @ slug) ''&author=''"
proof -
  have "sublist (CHR ''&'' # ''author='') (article_prefix @ slug)
        \<longleftrightarrow> sublist (CHR ''&'' # ''author='') slug"
    by (rule sublist_append_first) (rule prefix_facts(8))
  with assms show ?thesis by (simp add: contains_def)
qed

lemma endswith_slash:
  assumes "slug \<noteq> []" "CHR ''/'' \<notin> set slug"
  shows "\<not> endswith (article_prefix @ slug) (q @ [CHR ''/''])"
proof
  assume "endswith (article_prefix @ slug) (q @ [CHR ''/''])"
  then obtain zs where "article_prefix @ slug = zs @ q @ [CHR ''/'']"
    by (auto simp: endswith_def suffix_def)
  then have "last (article_prefix @ slug) = CHR ''/''" by simp
  with assms(1) have "last slug = CHR ''/''" by simp
  with assms show False using last_in_set by metis
qed

lemma endswith_root:
  assumes "slug \<noteq> []" "CHR ''/'' \<notin> set slug"
  shows "endswith (article_prefix @ slug) ''/digital-library'' \<longleftrightarrow> slug = ''digital-library''"
proof
  assume "slug = ''digital-library''"
  then show "endswith (article_prefix @ slug) ''/digital-library''"
    by (simp add: endswith_def article_prefix_def LIBRARY_BASE_URL_def suffix_def)
next
  assume "endswith (article_prefix @ slug) ''/digital-library''"
  then have "suffix ''/digital-library'' slug
     \<or> (\<exists>xs'. ''/digital-library'' = xs' @ slug \<and> suffix xs' article_prefix)"
    by (simp only: endswith_def suffix_append)
  then show "slug = ''digital-library''"
  proof
    assume "suffix ''/digital-library'' slug"
    then have "CHR ''/'' \<in> set slug" by (auto simp: suffix_def)
    with assms show ?thesis by simp
  next
    assume "\<exists>xs'. ''/digital-library'' = xs' @ slug \<and> suffix xs' article_prefix"
    then obtain xs' where e: "''/digital-library'' = xs' @ slug" and s: "suffix xs' article_prefix"
      by blast
    show ?thesis
    proof (cases xs')
      case Nil
      with e have "CHR ''/'' \<in> set slug" by (metis append_Nil list.set_intros(1))
      with assms show ?thesis by simp
    next
      case (Cons x xs'')
      with e have x: "x = CHR ''/''" and r: "''digital-library'' = xs'' @ slug" by simp_all
      have "xs'' = []"
      proof (rule ccontr)
        assume ne: "xs'' \<noteq> []"
        from s obtain zs where "article_prefix = zs @ xs'" by (auto simp: suffix_def)
        with Cons have "article_prefix = (zs @ [x]) @ xs''" by simp
        then have "last article_prefix = last ((zs @ [x]) @ xs'')" by (rule arg_cong)
        with ne have "last xs'' = last article_prefix" by simp
        then have "last xs'' = CHR ''/''" by (simp only: prefix_facts(10))
        with ne have "CHR ''/'' \<in> set xs''" using last_in_set by metis
        then have "CHR ''/'' \<in> set (xs'' @ slug)" by simp
        with r have "CHR ''/'' \<in> set ''digital-library''" by simp
        then show False by simp
      qed
      with r show ?thesis by simp
    qed
  qed
qed

lemma is_article_content_url:
  assumes "slug \<noteq> []" "CHR ''/'' \<notin> set slug" "CHR ''?'' \<notin> set slug"
    and "\<not> contains slug ''&author=''"
  shows "is_article_url (content_url slug) \<longleftrightarrow> slug \<noteq> ''digital-library''"
proof -
  let ?u = "article_prefix @ slug"
  have c1: "contains ?u ''/digital-library''"
    using prefix_facts(5) unfolding contains_def by (rule sublist_append_mono)
  have c2: "contains ?u ''/digital-library/''"
    using prefix_facts(6) unfolding contains_def by (rule sublist_append_mono)
  have e2: "\<not> endswith ?u ''/digital-library/''"
    using endswith_slash[OF assms(1,2), of "''/digital-library''"] by simp
  have n1: "\<not> contains ?u ''/digital-library/category/''"
    using contains_prefix_slash[OF assms(2), of "''/digital-library/category''"] prefix_facts(1)
    by simp
  have n2: "\<not> contains ?u ''/digital-library/tag/''"
    using contains_prefix_slash[OF assms(2), of "''/digital-library/tag''"] prefix_facts(2)
    by simp
  have n3: "\<not> contains ?u ''category/''"
    using contains_prefix_slash[OF assms(2), of "''category''"] prefix_facts(3) by simp
  have n4: "\<not> contains ?u ''tag/''"
    using contains_prefix_slash[OF assms(2), of "''tag''"] prefix_facts(4) by simp
  have q1: "\<not> contains ?u ''?author=''" by (rule no_question[OF assms(3)]) simp
  have q2: "\<not> contains ?u ''/digital-library?''" by (rule no_question[OF assms(3)]) simp
  have q3: "\<not> contains ?u ''?''" by (rule no_question[OF assms(3)]) simp
  have a1: "\<not> contains ?u ''&author=''" by (rule no_amp_author[OF assms(4)])
  have "is_article_url ?u \<longleftrightarrow> \<not> endswith ?u ''/digital-library''"
    unfolding is_article_url_def
    by (simp only: c1 c2 e2 n1 n2 n3 n4 q1 q2 q3 a1 list_ex_Nil_iff list_ex_Cons_iff simp_thms if_True if_False) simp
  then show ?thesis
    by (simp only: content_url_prefix endswith_root[OF assms(1,2)])
qed

lemma is_article_url_endswith:
  "endswith u ''/digital-library'' \<or> endswith u ''/digital-library/'' \<Longrightarrow> \<not> is_article_url u"
  unfolding is_article_url_def by (simp only: simp_thms if_True if_False if_cancel)

lemma is_article_url_listing_root:
  "\<not> is_article_url (b @ ''/digital-library'') \<and> \<not> is_article_url (b @ ''/digital-library/'')"
proof
  have "endswith (b @ ''/digital-library'') ''/digital-library''"
    unfolding endswith_def by (rule suffix_appendI) simp
  then show "\<not> is_article_url (b @ ''/digital-library'')"
    by (intro is_article_url_endswith disjI1)
  have "endswith (b @ ''/digital-library/'') ''/digital-library/''"
    unfolding endswith_def by (rule suffix_appendI) simp
  then show "\<not> is_article_url (b @ ''/digital-library/'')"
    by (intro is_article_url_endswith disjI2)
qed

lemma is_article_url_category_index:
  "contains u ''/digital-library/category/'' \<Longrightarrow> \<not> is_article_url u"
  by (simp add: is_article_url_def)

lemma is_article_url_tag_index:
  "contains u ''/digital-library/tag/'' \<Longrightarrow> \<not> is_article_url u"
  by (simp add: is_article_url_def)

lemma is_article_url_author_query:
  "contains u ''?author='' \<or> contains u ''&author='' \<or> contains u ''/digital-library?''
     \<Longrightarrow> \<not> is_article_url u"
  unfolding is_article_url_def by (auto simp only: simp_thms if_True if_False if_cancel split: if_split)

text \<open>
  C4. The classifier rejects the listing root with or without the final slash, every
  URL with \<^verbatim>\<open>/digital-library/category/\<close> or \<^verbatim>\<open>/digital-library/tag/\<close> in
  it and every URL with an \<^verbatim>\<open>author=\<close> parameter or a query on the library path
  (the four lemmas above), and it accepts the content URL of every slug without a slash,
  a question mark or an \<^verbatim>\<open>&author=\<close> but one (\<open>is_article_content_url\<close>): the
  content URL whose slug is \<^verbatim>\<open>digital-library\<close> has no query string, and the test
  for the listing root, \<^verbatim>\<open>url.endswith('/digital-library')\<close>, rejects it.
\<close>

theorem is_article_url_slug_digital_library:
  "content_url ''digital-library''
     = ''https://sacredcommunityproject.org/digital-library/digital-library''
   \<and> CHR ''?'' \<notin> set (content_url ''digital-library'')
   \<and> is_article_url (content_url ''digital-library'') = False"
  by code_simp

section \<open>The search inside a transition\<close>

lemma update_results_error:
  "update_results Unavailable v = (v, SearchError)"
  by (simp add: update_results_def search_library_def)

lemma update_results_found:
  "update_results (Available d) v
     = (v\<lparr> current_results :=
              search_content d (f_category (current_filters v)) (f_author (current_filters v))
                (f_tag (current_filters v)) (f_search_term (current_filters v)) SEARCH_RESULTS_LIMIT,
           current_page := 0 \<rparr>,
        show_results
          (v\<lparr> current_results :=
              search_content d (f_category (current_filters v)) (f_author (current_filters v))
                (f_tag (current_filters v)) (f_search_term (current_filters v)) SEARCH_RESULTS_LIMIT,
             current_page := 0 \<rparr>))"
  by (simp add: update_results_def search_library_def Let_def)

section \<open>A search that raises\<close>

lemma callback_error_keeps_results:
  "snd (category_callback Unavailable selected v) = SearchError
   \<and> current_results (fst (category_callback Unavailable selected v)) = current_results v
   \<and> current_page (fst (category_callback Unavailable selected v)) = current_page v
   \<and> snd (author_callback Unavailable selected v) = SearchError
   \<and> current_results (fst (author_callback Unavailable selected v)) = current_results v
   \<and> snd (tag_callback Unavailable selected v) = SearchError
   \<and> current_results (fst (tag_callback Unavailable selected v)) = current_results v
   \<and> snd (on_submit Unavailable input v) = SearchError
   \<and> current_results (fst (on_submit Unavailable input v)) = current_results v"
  by (simp add: category_callback_def author_callback_def tag_callback_def on_submit_def
        update_results_error)

lemma load_results_error_empties:
  "rss_search co (lv_current_query v) (lv_current_category v) (lv_current_author v) = Inl e
     \<Longrightarrow> load_results co v = v\<lparr> lv_current_results := [] \<rparr>"
  by (simp add: load_results_def)

lemma persistent_view_shows_no_error:
  "rss_search co (lv_current_query v) (lv_current_category v) (lv_current_author v) = Inl e
     \<Longrightarrow> create_results_embed (load_results co v) = LvNoResultsFound"
  by (simp add: load_results_def create_results_embed_def)

text \<open>
  C5. A search that raises is caught in \<^verbatim>\<open>update_results\<close> of bot.py, the filter
  just chosen stays, the page stays and the error embed is shown; but the assignment to
  \<^verbatim>\<open>current_results\<close> never happened, so the session keeps the twelve results of
  the search before, where the specification wants the empty list. The other variant of the view
  does empty its results on the same error (last line).
\<close>

theorem search_error_keeps_stale_results:
  "snd (category_callback Unavailable ''Healing'' (twelve_view\<lparr> current_page := 2 \<rparr>)) = SearchError
   \<and> f_category (current_filters
        (fst (category_callback Unavailable ''Healing'' (twelve_view\<lparr> current_page := 2 \<rparr>))))
      = Some ''Healing''
   \<and> current_page (fst (category_callback Unavailable ''Healing'' (twelve_view\<lparr> current_page := 2 \<rparr>)))
      = 2
   \<and> current_results (fst (category_callback Unavailable ''Healing'' (twelve_view\<lparr> current_page := 2 \<rparr>)))
      = twelve_results
   \<and> length twelve_results = 12
   \<and> lv_current_results (fst (update_filters failing_collaborators (Some ''Healing'') None music_view))
      = []"
  by (simp add: category_callback_def update_results_error twelve_view_def twelve_results_def
        update_filters_def load_results_def failing_collaborators_def music_view_def Let_def)

section \<open>Paging\<close>

lemma previous_button_first_page:
  "current_page v = 0 \<Longrightarrow> previous_button v = (v, Ephemeral AlreadyFirstPage)"
  by (simp add: previous_button_def)

lemma next_button_last_page:
  "total_pages (current_results v) \<le> current_page v + 1
     \<Longrightarrow> next_button v = (v, Ephemeral AlreadyLastPage)"
  by (simp add: next_button_def)

lemma next_button_moves:
  "current_page v + 1 < total_pages (current_results v)
     \<Longrightarrow> fst (next_button v) = v\<lparr> current_page := current_page v + 1 \<rparr>"
  by (simp add: next_button_def Let_def)

lemma previous_button_moves:
  "0 < current_page v \<Longrightarrow> fst (previous_button v) = v\<lparr> current_page := current_page v - 1 \<rparr>"
  by (simp add: previous_button_def Let_def)

lemma total_pages_12: "length rs = 12 \<Longrightarrow> total_pages rs = 3"
  by (simp add: total_pages_def RESULTS_PER_PAGE_def)

lemma total_pages_le:
  "total_pages rs \<le> p + 1 \<longleftrightarrow> length rs \<le> (p + 1) * 5"
  unfolding total_pages_def RESULTS_PER_PAGE_def by (simp add: algebra_simps) presburger

lemma next_button_at_end:
  assumes "length (current_results v) \<le> (current_page v + 1) * 5"
  shows "next_button v = (v, Ephemeral AlreadyLastPage)"
proof -
  from assms have "total_pages (current_results v) \<le> current_page v + 1"
    by (simp only: total_pages_le)
  then show ?thesis by (rule next_button_last_page)
qed

lemma next_button_before_end:
  assumes "(current_page v + 1) * 5 < length (current_results v)"
  shows "next_button v
           = (v\<lparr> current_page := current_page v + 1 \<rparr>,
              show_results (v\<lparr> current_page := current_page v + 1 \<rparr>))"
proof -
  from assms have "\<not> length (current_results v) \<le> (current_page v + 1) * 5"
    by (simp only: not_le)
  with total_pages_le[of "current_results v" "current_page v"]
  have "\<not> total_pages (current_results v) \<le> current_page v + 1"
    by blast
  then show ?thesis by (simp add: next_button_def Let_def)
qed

lemma funpow_two: "(f ^^ 2) x = f (f x)"
  by (simp add: numeral_2_eq_2)

lemma funpow_three: "(f ^^ 3) x = f ((f ^^ 2) x)"
  by (simp add: numeral_3_eq_3 numeral_2_eq_2)

lemma three_next_three_previous:
  assumes "length (current_results v) = 12" and "current_page v = 0"
  shows "((fst \<circ> next_button) ^^ 2) v = v\<lparr> current_page := 2 \<rparr>"
    and "next_button (v\<lparr> current_page := 2 \<rparr>) = (v\<lparr> current_page := 2 \<rparr>, Ephemeral AlreadyLastPage)"
    and "((fst \<circ> previous_button) ^^ 2) (v\<lparr> current_page := 2 \<rparr>) = v"
proof -
  have tp: "total_pages (current_results v) = 3"
    using assms(1) by (rule total_pages_12)
  have "current_page v + 1 < total_pages (current_results v)"
    using tp assms(2) by simp
  from next_button_moves[OF this]
  have n1: "fst (next_button v) = v\<lparr> current_page := 1 \<rparr>"
    using assms(2) by simp
  have "current_page (v\<lparr> current_page := 1 \<rparr>) + 1
          < total_pages (current_results (v\<lparr> current_page := 1 \<rparr>))"
    using tp by simp
  from next_button_moves[OF this]
  have n2: "fst (next_button (v\<lparr> current_page := 1 \<rparr>)) = v\<lparr> current_page := 2 \<rparr>"
    by simp
  show "((fst \<circ> next_button) ^^ 2) v = v\<lparr> current_page := 2 \<rparr>"
    by (simp only: funpow_two o_apply n1 n2)
  show "next_button (v\<lparr> current_page := 2 \<rparr>) = (v\<lparr> current_page := 2 \<rparr>, Ephemeral AlreadyLastPage)"
    using next_button_last_page[of "v\<lparr> current_page := 2 \<rparr>"] tp by simp
  have "0 < current_page (v\<lparr> current_page := 2 \<rparr>)" by simp
  from previous_button_moves[OF this]
  have p1: "fst (previous_button (v\<lparr> current_page := 2 \<rparr>)) = v\<lparr> current_page := 1 \<rparr>"
    by simp
  have "0 < current_page (v\<lparr> current_page := 1 \<rparr>)" by simp
  from previous_button_moves[OF this]
  have p2: "fst (previous_button (v\<lparr> current_page := 1 \<rparr>)) = v\<lparr> current_page := 0 \<rparr>"
    by simp
  have "v\<lparr> current_page := 0 \<rparr> = v" using assms(2) by simp
  then show "((fst \<circ> previous_button) ^^ 2) (v\<lparr> current_page := 2 \<rparr>) = v"
    by (simp only: funpow_two o_apply p1 p2)
qed

text \<open>
  C6. The previous-page button at page 0, and the next-page button on a page after which
  no result is left (five results to a page: the last page, a page beyond it, or no
  results at all), return the session as it is, filters, page and results, together with
  an ephemeral notice; as long as results are left after the page, the next-page button
  moves one page on. So from page 0 of 12 results three presses of next end on page 2,
  the third being refused, and three presses of previous lead back to the session of the
  start, the third being refused; the page shown is again the first five results.
\<close>

theorem page_buttons_stop_at_the_ends:
  assumes "current_page a = 0"
    and "length (current_results b) \<le> (current_page b + 1) * 5"
    and "(current_page c + 1) * 5 < length (current_results c)"
    and "length (current_results v) = 12" and "current_page v = 0"
  shows "previous_button a = (a, Ephemeral AlreadyFirstPage)
       \<and> next_button b = (b, Ephemeral AlreadyLastPage)
       \<and> next_button c
           = (c\<lparr> current_page := current_page c + 1 \<rparr>,
              show_results (c\<lparr> current_page := current_page c + 1 \<rparr>))
       \<and> ((fst \<circ> next_button) ^^ 3) v = v\<lparr> current_page := 2 \<rparr>
       \<and> snd (next_button (((fst \<circ> next_button) ^^ 2) v)) = Ephemeral AlreadyLastPage
       \<and> ((fst \<circ> previous_button) ^^ 3) (((fst \<circ> next_button) ^^ 3) v) = v
       \<and> snd (previous_button (((fst \<circ> previous_button) ^^ 2) (((fst \<circ> next_button) ^^ 3) v)))
           = Ephemeral AlreadyFirstPage
       \<and> show_results (((fst \<circ> previous_button) ^^ 3) (((fst \<circ> next_button) ^^ 3) v))
           = ResultsEmbed 12 (current_filters v) (take 5 (current_results v)) (Some (1, 3))
       \<and> show_results v
           = ResultsEmbed 12 (current_filters v) (take 5 (current_results v)) (Some (1, 3))"
proof -
  note t = three_next_three_previous[OF assms(4,5)]
  have n3: "((fst \<circ> next_button) ^^ 3) v = v\<lparr> current_page := 2 \<rparr>"
    by (simp only: funpow_three o_apply t(1,2) fst_conv)
  have p3: "((fst \<circ> previous_button) ^^ 3) (v\<lparr> current_page := 2 \<rparr>) = v"
    by (simp only: funpow_three o_apply t(3) previous_button_first_page[OF assms(5)] fst_conv)
  have ne: "current_results v \<noteq> []" using assms(4) by auto
  have sh: "show_results v
           = ResultsEmbed 12 (current_filters v) (take 5 (current_results v)) (Some (1, 3))"
    using ne assms(4,5) total_pages_12[OF assms(4)]
    by (simp add: show_results_def Let_def RESULTS_PER_PAGE_def)
  show ?thesis
    using previous_button_first_page[OF assms(1)] next_button_at_end[OF assms(2)]
      next_button_before_end[OF assms(3)]
      previous_button_first_page[OF assms(5)] t n3 p3 sh
    by simp
qed

theorem page_buttons_stop_at_the_ends_witness:
  "current_page twelve_view = 0
   \<and> length (current_results (twelve_view\<lparr> current_page := 2 \<rparr>))
       \<le> (current_page (twelve_view\<lparr> current_page := 2 \<rparr>) + 1) * 5
   \<and> (current_page twelve_view + 1) * 5 < length (current_results twelve_view)
   \<and> length (current_results twelve_view) = 12
   \<and> previous_button twelve_view = (twelve_view, Ephemeral AlreadyFirstPage)
   \<and> next_button (twelve_view\<lparr> current_page := 2 \<rparr>)
       = (twelve_view\<lparr> current_page := 2 \<rparr>, Ephemeral AlreadyLastPage)
   \<and> fst (next_button twelve_view) = twelve_view\<lparr> current_page := 1 \<rparr>
   \<and> ((fst \<circ> previous_button) ^^ 3) (((fst \<circ> next_button) ^^ 3) twelve_view) = twelve_view
   \<and> show_results (((fst \<circ> previous_button) ^^ 3) (((fst \<circ> next_button) ^^ 3) twelve_view))
       = show_results twelve_view"
proof -
  have p: "current_page twelve_view = 0"
    by (simp add: twelve_view_def initial_view_def)
  have l: "length (current_results twelve_view) = 12"
    by (simp add: twelve_view_def twelve_results_def)
  have b: "length (current_results (twelve_view\<lparr> current_page := 2 \<rparr>))
             \<le> (current_page (twelve_view\<lparr> current_page := 2 \<rparr>) + 1) * 5"
    using l by simp
  have c: "(current_page twelve_view + 1) * 5 < length (current_results twelve_view)"
    using l p by simp
  note w = page_buttons_stop_at_the_ends[OF p b c l p]
  from w have c1: "previous_button twelve_view = (twelve_view, Ephemeral AlreadyFirstPage)"
    by (rule conjunct1)
  from w have c2: "next_button (twelve_view\<lparr> current_page := 2 \<rparr>)
                     = (twelve_view\<lparr> current_page := 2 \<rparr>, Ephemeral AlreadyLastPage)"
    by blast
  from w have "next_button twelve_view
                 = (twelve_view\<lparr> current_page := current_page twelve_view + 1 \<rparr>,
                    show_results (twelve_view\<lparr> current_page := current_page twelve_view + 1 \<rparr>))"
    by blast
  then have c3: "fst (next_button twelve_view) = twelve_view\<lparr> current_page := 1 \<rparr>"
    using p by simp
  from w have c5: "((fst \<circ> previous_button) ^^ 3) (((fst \<circ> next_button) ^^ 3) twelve_view)
                     = twelve_view"
    by blast
  have c6: "show_results (((fst \<circ> previous_button) ^^ 3) (((fst \<circ> next_button) ^^ 3) twelve_view))
              = show_results twelve_view"
    by (simp only: c5)
  from p b c l c1 c2 c3 c5 c6 show ?thesis by blast
qed

section \<open>Choosing and clearing a filter\<close>

lemma select_keeps_other_filters:
  "f_category (current_filters (fst (category_callback st selected v)))
     = (if selected = ''clear'' then None else Some selected)
   \<and> f_author (current_filters (fst (category_callback st selected v))) = f_author (current_filters v)
   \<and> f_tag (current_filters (fst (category_callback st selected v))) = f_tag (current_filters v)
   \<and> f_search_term (current_filters (fst (category_callback st selected v)))
       = f_search_term (current_filters v)
   \<and> f_author (current_filters (fst (author_callback st selected v)))
     = (if selected = ''clear'' then None else Some selected)
   \<and> f_category (current_filters (fst (author_callback st selected v))) = f_category (current_filters v)
   \<and> f_tag (current_filters (fst (author_callback st selected v))) = f_tag (current_filters v)
   \<and> f_search_term (current_filters (fst (author_callback st selected v)))
       = f_search_term (current_filters v)
   \<and> f_tag (current_filters (fst (tag_callback st selected v)))
     = (if selected = ''clear'' then None else Some selected)
   \<and> f_category (current_filters (fst (tag_callback st selected v))) = f_category (current_filters v)
   \<and> f_author (current_filters (fst (tag_callback st selected v))) = f_author (current_filters v)
   \<and> f_search_term (current_filters (fst (tag_callback st selected v)))
       = f_search_term (current_filters v)"
  by (cases st)
     (simp_all add: category_callback_def author_callback_def tag_callback_def
        update_results_error update_results_found)

lemma select_resets_page:
  "current_page (fst (category_callback (Available d) selected v)) = 0
   \<and> current_page (fst (author_callback (Available d) selected v)) = 0
   \<and> current_page (fst (tag_callback (Available d) selected v)) = 0"
  by (simp add: category_callback_def author_callback_def tag_callback_def update_results_found)

lemma update_filters_value:
  "lv_current_category (fst (update_filters co (Some c) None v)) = Some c
   \<and> lv_current_author (fst (update_filters co (Some c) None v)) = lv_current_author v
   \<and> lv_current_query (fst (update_filters co (Some c) None v)) = lv_current_query v
   \<and> lv_current_page (fst (update_filters co (Some c) None v)) = 0
   \<and> lv_current_author (fst (update_filters co None (Some a) v)) = Some a
   \<and> lv_current_category (fst (update_filters co None (Some a) v)) = lv_current_category v
   \<and> lv_current_query (fst (update_filters co None (Some a) v)) = lv_current_query v
   \<and> lv_current_page (fst (update_filters co None (Some a) v)) = 0"
  by (auto simp add: update_filters_def load_results_def Let_def split: sum.splits)

lemma all_option_clears_nothing:
  "lv_current_category (fst (category_select_callback co ''all'' v)) = lv_current_category v
   \<and> lv_current_author (fst (author_select_callback co ''all'' v)) = lv_current_author v"
  by (auto simp add: category_select_callback_def author_select_callback_def update_filters_def
        load_results_def Let_def split: sum.splits)

text \<open>
  C7. In the persistent variant the option ``All Categories'' is a request to clear, and
  the session that had the category Music still has it afterwards, where the specification wants
  the field without a value. The same request in bot.py clears the field (last line).
\<close>

theorem all_categories_option_keeps_category:
  "lv_current_category music_view = Some ''Music''
   \<and> lv_current_category (fst (category_select_callback quiet_collaborators ''all'' music_view))
      = Some ''Music''
   \<and> f_category (current_filters
        (fst (category_callback Unavailable ''clear''
               (twelve_view\<lparr> current_filters := (current_filters twelve_view)
                              \<lparr> f_category := Some ''Music'' \<rparr> \<rparr>))))
      = None"
  by (simp add: category_select_callback_def update_filters_def load_results_def
        quiet_collaborators_def music_view_def Let_def category_callback_def update_results_error)

section \<open>The most frequent tags\<close>

lemma first_seen_Cons:
  "rev (remdups (rev (x # xs))) = x # filter (\<lambda>y. y \<noteq> x) (rev (remdups (rev xs)))"
proof -
  have "remdups (ys @ [x]) = filter (\<lambda>y. y \<noteq> x) (remdups ys) @ [x]" for ys
    by (induction ys) auto
  then show ?thesis by (simp add: rev_filter)
qed

lemma bump_keys:
  "map fst (bump t m) = (if t \<in> set (map fst m) then map fst m else map fst m @ [t])"
  by (induction m) (auto split: if_splits)

lemma bump_distinct: "distinct (map fst m) \<Longrightarrow> distinct (map fst (bump t m))"
  by (simp add: bump_keys)

lemma bump_map_of:
  "map_of (bump t m) k
     = (if k = t then Some (case map_of m t of None \<Rightarrow> 1 | Some n \<Rightarrow> n + 1) else map_of m k)"
  by (induction m) (auto split: if_splits)

lemma fold_bump_keys:
  "map fst (fold bump xs m)
     = map fst m @ filter (\<lambda>x. x \<notin> set (map fst m)) (rev (remdups (rev xs)))"
proof (induction xs arbitrary: m)
  case Nil
  then show ?case by simp
next
  case (Cons x xs)
  show ?case
  proof (cases "x \<in> set (map fst m)")
    case True
    then have "filter (\<lambda>y. y \<notin> set (map fst m)) (filter (\<lambda>y. y \<noteq> x) ys)
                 = filter (\<lambda>y. y \<notin> set (map fst m)) ys" for ys
      by (induction ys) auto
    with True show ?thesis
      by (simp only: fold_simps Cons.IH bump_keys first_seen_Cons if_True filter.simps)
         (simp)
  next
    case False
    have "filter (\<lambda>y. y \<notin> set (map fst m @ [x])) ys
            = filter (\<lambda>y. y \<notin> set (map fst m)) (filter (\<lambda>y. y \<noteq> x) ys)" for ys
      by (induction ys) auto
    with False show ?thesis
      by (simp only: fold_simps Cons.IH bump_keys first_seen_Cons if_False filter.simps)
         (simp)
  qed
qed

lemma fold_bump_distinct:
  "distinct (map fst m) \<Longrightarrow> distinct (map fst (fold bump xs m))"
  by (induction xs arbitrary: m) (simp_all add: bump_distinct)

lemma fold_bump_map_of:
  "map_of (fold bump xs m) k
     = (case map_of m k of
          None \<Rightarrow> if k \<in> set xs then Some (count_list xs k) else None
        | Some n \<Rightarrow> Some (n + count_list xs k))"
proof (induction xs arbitrary: m)
  case Nil
  then show ?case by (simp split: option.splits)
next
  case (Cons x xs)
  show ?case
    by (simp add: Cons.IH bump_map_of split: option.splits)
qed

lemma fold_rows_concat:
  "fold (\<lambda>r m. fold bump (tags r) m) rows m = fold bump (concat (map tags rows)) m"
  by (induction rows arbitrary: m) simp_all

lemma concat_tags_nonempty:
  "concat (map tags (filter (\<lambda>r. scrape_success r \<and> tags r \<noteq> []) d))
     = concat (map tags (filter scrape_success d))"
  by (induction d) auto

lemma count_tags_fold:
  "count_tags (filter (\<lambda>r. scrape_success r \<and> tags r \<noteq> []) d)
     = fold bump (concat (map tags (filter scrape_success d))) []"
  by (simp add: count_tags_def fold_rows_concat concat_tags_nonempty)

lemma fold_bump_items:
  "fold bump xs [] = map (\<lambda>t. (t, count_list xs t)) (rev (remdups (rev xs)))"
proof -
  let ?items = "fold bump xs []"
  have k: "map fst ?items = rev (remdups (rev xs))"
    using fold_bump_keys[of xs "[]"] by simp
  have d: "distinct (map fst ?items)"
    by (rule fold_bump_distinct) simp
  have "snd p = count_list xs (fst p)" if "p \<in> set ?items" for p
  proof -
    have "map_of ?items (fst p) = Some (snd p)"
      using d that by (intro map_of_is_SomeI) simp_all
    then show ?thesis
      by (simp add: fold_bump_map_of split: if_splits)
  qed
  then have "map (\<lambda>p. (fst p, count_list xs (fst p))) ?items = ?items"
    by (intro map_idI) (auto simp: prod_eq_iff)
  then have "?items = map (\<lambda>t. (t, count_list xs t)) (map fst ?items)"
    by (simp add: comp_def)
  then show ?thesis by (simp only: k)
qed

lemma ranking_descending:
  "sorted_wrt (\<lambda>a b. snd b \<le> snd a) (sorted_by_popularity items)"
proof -
  have "sorted (map snd (sort_key snd (rev items)))" by (rule sorted_sort_key)
  then have "sorted_wrt (\<lambda>a b. snd a \<le> snd b) (sort_key snd (rev items))"
    by (simp only: sorted_map)
  then show ?thesis
    by (simp add: sorted_by_popularity_def sorted_wrt_rev)
qed

lemma ranking_stable:
  "filter (\<lambda>p. snd p = k) (sorted_by_popularity items) = filter (\<lambda>p. snd p = k) items"
proof -
  have "filter (\<lambda>p. snd p = k) (rev (sort_key snd (rev items)))
          = rev (filter (\<lambda>p. snd p = k) (sort_key snd (rev items)))"
    by (simp only: rev_filter)
  also have "\<dots> = rev (filter (\<lambda>p. snd p = k) (rev items))"
    by (simp only: sort_key_stable)
  also have "\<dots> = filter (\<lambda>p. snd p = k) items"
    by (simp only: rev_filter rev_rev_ident)
  finally show ?thesis by (simp only: sorted_by_popularity_def)
qed

lemma ranking_same_items:
  "set (sorted_by_popularity items) = set items
   \<and> length (sorted_by_popularity items) = length items
   \<and> distinct (map fst (sorted_by_popularity items)) = distinct (map fst items)"
  by (simp add: sorted_by_popularity_def distinct_map)

lemma get_all_tags_ranked:
  "get_all_tags_with_counts d
     = sort (map fst (take 24 (sorted_by_popularity
         (map (\<lambda>t. (t, count_list (concat (map tags (filter scrape_success d))) t))
            (rev (remdups (rev (concat (map tags (filter scrape_success d))))))))))"
  by (simp add: get_all_tags_with_counts_def count_tags_fold fold_bump_items)

lemma ranking_cut:
  "list_all (\<lambda>p. list_all (\<lambda>q. snd q \<le> snd p) (drop n (sorted_by_popularity items)))
     (take n (sorted_by_popularity items))"
proof -
  have "sorted_wrt (\<lambda>a b. snd b \<le> snd a)
          (take n (sorted_by_popularity items) @ drop n (sorted_by_popularity items))"
    using ranking_descending[of items] by simp
  then show ?thesis
    unfolding sorted_wrt_append list_all_iff by blast
qed

lemma get_all_tags_shape:
  "sorted (get_all_tags_with_counts d) \<and> distinct (get_all_tags_with_counts d)
   \<and> length (get_all_tags_with_counts d)
       = min 24 (card (set (concat (map tags (filter scrape_success d)))))
   \<and> set (get_all_tags_with_counts d) \<subseteq> set (concat (map tags (filter scrape_success d)))"
proof -
  let ?occ = "concat (map tags (filter scrape_success d))"
  let ?items = "map (\<lambda>t. (t, count_list ?occ t)) (rev (remdups (rev ?occ)))"
  let ?ranking = "sorted_by_popularity ?items"
  have keys: "map fst ?items = rev (remdups (rev ?occ))" by (simp add: comp_def)
  have di: "distinct (map fst ?items)" by (simp only: keys) simp
  have dr: "distinct (map fst ?ranking)"
    using ranking_same_items[of ?items] di by simp
  have "distinct (take 24 (map fst ?ranking))" using dr by (rule distinct_take)
  then have d24: "distinct (map fst (take 24 ?ranking))" by (simp only: take_map)
  have len: "length ?ranking = card (set ?occ)"
    using ranking_same_items[of ?items] by (simp add: length_remdups_card_conv)
  have "set (take 24 (map fst ?ranking)) \<subseteq> set (map fst ?ranking)"
    by (rule set_take_subset)
  then have "set (map fst (take 24 ?ranking)) \<subseteq> set (map fst ?ranking)"
    by (simp only: take_map)
  also have "set (map fst ?ranking) = set (map fst ?items)"
    using ranking_same_items[of ?items] by (simp only: set_map)
  also have "\<dots> = set ?occ" by (simp only: keys set_rev set_remdups)
  finally have sub: "set (map fst (take 24 ?ranking)) \<subseteq> set ?occ" .
  show ?thesis
    unfolding get_all_tags_ranked
    using d24 len sub by simp
qed

text \<open>
  C8, amended. \<^verbatim>\<open>get_all_tags_with_counts\<close> has no parameter: it ranks the tags of
  the successful records, each with the number of its occurrences, taken in the order in
  which the tags first occur in the table; the ranking is a rearrangement of these pairs
  by descending number in which the pairs of one number keep the order of first
  occurrence; the first 24 of the ranking are returned, all when there are fewer, sorted
  alphabetically and without repetition, and none of them is less frequent than any tag
  left out. Over the frequencies grief 5, healing 5, music 1 the result is all three
  tags.
\<close>

theorem top_tags_by_frequency_then_first_seen:
  "get_all_tags_with_counts d
     = sort (map fst (take 24 (sorted_by_popularity
         (map (\<lambda>t. (t, count_list (concat (map tags (filter scrape_success d))) t))
            (rev (remdups (rev (concat (map tags (filter scrape_success d))))))))))
   \<and> set (sorted_by_popularity items) = set items
   \<and> length (sorted_by_popularity items) = length items
   \<and> sorted_wrt (\<lambda>a b. snd b \<le> snd a) (sorted_by_popularity items)
   \<and> filter (\<lambda>p. snd p = k) (sorted_by_popularity items) = filter (\<lambda>p. snd p = k) items
   \<and> list_all (\<lambda>p. list_all (\<lambda>q. snd q \<le> snd p) (drop 24 (sorted_by_popularity items)))
        (take 24 (sorted_by_popularity items))
   \<and> sorted (get_all_tags_with_counts d) \<and> distinct (get_all_tags_with_counts d)
   \<and> length (get_all_tags_with_counts d)
       = min 24 (card (set (concat (map tags (filter scrape_success d)))))
   \<and> set (get_all_tags_with_counts d) \<subseteq> set (concat (map tags (filter scrape_success d)))
   \<and> get_all_tags_with_counts scenario_table = [''grief'', ''healing'', ''music'']"
proof -
  have sc: "get_all_tags_with_counts scenario_table = [''grief'', ''healing'', ''music'']"
    by code_simp
  show ?thesis
    using get_all_tags_ranked[of d] ranking_same_items[of items] ranking_descending[of items]
      ranking_stable[of k items] ranking_cut[of 24 items] get_all_tags_shape[of d] sc
    by (simp only: simp_thms)
qed

theorem top_tags_by_frequency_then_first_seen_witness:
  "length (get_all_tags_with_counts alphabet_table) = 24
   \<and> card (set (concat (map tags (filter scrape_success alphabet_table)))) = 25"
proof -
  have c: "card (set (concat (map tags (filter scrape_success alphabet_table)))) = 25"
    by code_simp
  from top_tags_by_frequency_then_first_seen[of alphabet_table "[]" 0]
  have "length (get_all_tags_with_counts alphabet_table)
          = min 24 (card (set (concat (map tags (filter scrape_success alphabet_table)))))"
    by blast
  with c show ?thesis by simp
qed

text \<open>
  The sentence of the specification fails twice. There is no cut at 2: the three tags of the scenario
  are all returned. And a tie at the cut is not settled by the alphabet: of 25 tags that
  occur once each, first seen from \<^verbatim>\<open>y\<close> down to \<^verbatim>\<open>a\<close>, the one left out is
  \<^verbatim>\<open>a\<close>, the last seen.
\<close>

theorem top_tags_ignore_max_count_and_alphabet:
  "count_tags (filter (\<lambda>r. scrape_success r \<and> tags r \<noteq> []) scenario_table)
     = [(''healing'', 5), (''grief'', 5), (''music'', 1)]
   \<and> get_all_tags_with_counts scenario_table \<noteq> [''grief'', ''healing'']
   \<and> get_all_tags_with_counts alphabet_table
     = [''b'', ''c'', ''d'', ''e'', ''f'', ''g'', ''h'', ''i'', ''j'', ''k'', ''l'', ''m'', ''n'',
        ''o'', ''p'', ''q'', ''r'', ''s'', ''t'', ''u'', ''v'', ''w'', ''x'', ''y'']"
  by code_simp

section \<open>The lock of the admin commands\<close>

lemma count_list_update:
  "k < length xs \<Longrightarrow>
   length (filter F (xs[k := y])) + (if F (xs ! k) then 1 else 0)
     = length (filter F xs) + (if F y then 1 else 0)"
proof (induction xs arbitrary: k)
  case Nil
  then show ?case by simp
next
  case (Cons x xs)
  then show ?case by (cases k) auto
qed

lemma step_keeps_count:
  assumes "length (filter (\<lambda>t. in_flight (t_pc t)) (tasks b))
             = (if admin_operation_lock b then 1 else 0)"
  shows "length (filter (\<lambda>t. in_flight (t_pc t)) (tasks (step proc k b)))
             = (if admin_operation_lock (step proc k b) then 1 else 0)"
proof (cases "length (tasks b) \<le> k")
  case True
  then show ?thesis using assms by (simp add: step_def)
next
  case False
  then have k: "k < length (tasks b)" by simp
  note c = count_list_update[OF k, of "\<lambda>t. in_flight (t_pc t)"]
  show ?thesis
  proof (cases "t_pc (tasks b ! k)")
    case Invoked
    then show ?thesis
      using assms k c[of "(tasks b ! k)\<lparr> t_pc := Finished \<rparr>"]
        c[of "(tasks b ! k)\<lparr> t_pc := Sending \<rparr>"]
      by (simp add: step_def Let_def split: if_splits)
  next
    case Sending
    obtain e st' where r: "run_command proc (t_op (tasks b ! k)) (library b) = (e, st')"
      by (cases "run_command proc (t_op (tasks b ! k)) (library b)")
    show ?thesis
      using assms k Sending r c[of "(tasks b ! k)\<lparr> t_pc := Editing e \<rparr>"]
      by (simp add: step_def Let_def split: if_splits)
  next
    case (Editing e)
    then show ?thesis
      using assms k c[of "(tasks b ! k)\<lparr> t_pc := Finished \<rparr>"]
      by (simp add: step_def Let_def split: if_splits)
  next
    case Finished
    then show ?thesis using assms k by (simp add: step_def Let_def)
  qed
qed

lemma run_keeps_count:
  assumes "length (filter (\<lambda>t. in_flight (t_pc t)) (tasks b))
             = (if admin_operation_lock b then 1 else 0)"
  shows "length (filter (\<lambda>t. in_flight (t_pc t)) (tasks (run_schedule proc sch b)))
             = (if admin_operation_lock (run_schedule proc sch b) then 1 else 0)"
  using assms unfolding run_schedule_def
proof (induction sch arbitrary: b)
  case Nil
  then show ?case by simp
next
  case (Cons k sch)
  from step_keeps_count[OF Cons.prems] show ?case
    by (simp only: fold_simps) (rule Cons.IH)
qed

lemma fresh_bot_count:
  "length (filter (\<lambda>t. in_flight (t_pc t)) (tasks (fresh_bot commands st)))
     = (if admin_operation_lock (fresh_bot commands st) then 1 else 0)"
  by (simp add: fresh_bot_def filter_map comp_def split_def)

lemma step_rejects:
  assumes "admin_operation_lock s" and "i < length (tasks s)"
    and "t_pc (tasks s ! i) = Invoked" and "t_admin (tasks s ! i)"
  shows "step proc i s
           = s\<lparr> tasks := (tasks s)[i := (tasks s ! i)\<lparr> t_pc := Finished \<rparr>],
                sent := sent s @ [(i, OperationInProgress)] \<rparr>"
  using assms by (simp add: step_def Let_def)

lemma apart_fromD:
  assumes "apart_from i a = apart_from i b"
  shows "admin_operation_lock a = admin_operation_lock b"
    and "library a = library b"
    and "length (tasks a) = length (tasks b)"
    and "k \<noteq> i \<Longrightarrow> tasks a ! k = tasks b ! k"
    and "filter (\<lambda>(k, e). k \<noteq> i) (sent a) = filter (\<lambda>(k, e). k \<noteq> i) (sent b)"
    and "(tasks a)[i := x] = (tasks b)[i := x]"
proof -
  let ?blank = "\<lparr> t_op = Incremental, t_admin = False, t_pc = Finished \<rparr>"
  from assms have t: "(tasks a)[i := ?blank] = (tasks b)[i := ?blank]"
    and l: "admin_operation_lock a = admin_operation_lock b"
    and y: "library a = library b"
    and f: "filter (\<lambda>(k, e). k \<noteq> i) (sent a) = filter (\<lambda>(k, e). k \<noteq> i) (sent b)"
    by (simp_all add: apart_from_def)
  from t have "length ((tasks a)[i := ?blank]) = length ((tasks b)[i := ?blank])"
    by (rule arg_cong)
  then have len: "length (tasks a) = length (tasks b)" by simp
  have n: "tasks a ! j = tasks b ! j" if "j \<noteq> i" for j
  proof -
    from t have "(tasks a)[i := ?blank] ! j = (tasks b)[i := ?blank] ! j" by (rule arg_cong)
    with that show ?thesis by simp
  qed
  show "length (tasks a) = length (tasks b)" by (rule len)
  show "tasks a ! k = tasks b ! k" if "k \<noteq> i" using that by (rule n)
  show "(tasks a)[i := x] = (tasks b)[i := x]"
  proof (rule nth_equalityI)
    show "length ((tasks a)[i := x]) = length ((tasks b)[i := x])" using len by simp
    fix j assume "j < length ((tasks a)[i := x])"
    then show "(tasks a)[i := x] ! j = (tasks b)[i := x] ! j"
      using n[of j] len by (cases "j = i") simp_all
  qed
  show "admin_operation_lock a = admin_operation_lock b" by (rule l)
  show "library a = library b" by (rule y)
  show "filter (\<lambda>(k, e). k \<noteq> i) (sent a) = filter (\<lambda>(k, e). k \<noteq> i) (sent b)" by (rule f)
qed

lemma step_apart:
  assumes "apart_from i a = apart_from i b" and "k \<noteq> i"
  shows "apart_from i (step proc k a) = apart_from i (step proc k b)"
proof -
  note d = apart_fromD[OF assms(1)]
  have sw: "(tasks a)[k := y, i := x] = (tasks b)[k := y, i := x]" for x y
  proof -
    have m: "(tasks a)[i := x, k := y] = (tasks b)[i := x, k := y]"
      by (simp only: d(6)[of x])
    have "(tasks a)[k := y, i := x] = (tasks a)[i := x, k := y]"
      using assms(2) by (rule list_update_swap)
    moreover have "(tasks b)[k := y, i := x] = (tasks b)[i := x, k := y]"
      using assms(2) by (rule list_update_swap)
    ultimately show ?thesis using m by simp
  qed
  show ?thesis
  proof (cases "length (tasks a) \<le> k")
    case True
    then show ?thesis using assms(1) d(3) by (simp add: step_def)
  next
    case False
    then have ka: "k < length (tasks a)" and kb: "k < length (tasks b)" using d(3) by simp_all
    note same = d(4)[OF assms(2)]
    show ?thesis
    proof (cases "t_pc (tasks b ! k)")
      case Invoked
      then show ?thesis
        using ka kb same d(1,2,5) assms(2) sw
        by (simp add: step_def Let_def apart_from_def)
    next
      case Sending
      obtain e st' where r: "run_command proc (t_op (tasks b ! k)) (library b) = (e, st')"
        by (cases "run_command proc (t_op (tasks b ! k)) (library b)")
      show ?thesis
        using ka kb same d(1,2,5) assms(2) sw Sending r
        by (simp add: step_def Let_def apart_from_def)
    next
      case (Editing e)
      then show ?thesis
        using ka kb same d(1,2,5) assms(2) sw
        by (simp add: step_def Let_def apart_from_def)
    next
      case Finished
      then show ?thesis
        using ka kb same assms(1) by (simp add: step_def Let_def)
    qed
  qed
qed

lemma step_finished:
  "i < length (tasks a) \<Longrightarrow> t_pc (tasks a ! i) = Finished \<Longrightarrow> step proc i a = a"
  by (simp add: step_def Let_def)

lemma step_keeps_finished:
  assumes "i < length (tasks a)" and "t_pc (tasks a ! i) = Finished"
  shows "i < length (tasks (step proc k a)) \<and> t_pc (tasks (step proc k a) ! i) = Finished"
proof (cases "k = i")
  case True
  with assms show ?thesis by (simp add: step_finished)
next
  case False
  show ?thesis
  proof (cases "length (tasks a) \<le> k")
    case True
    with assms show ?thesis by (simp add: step_def)
  next
    case nk: False
    obtain e st' where r: "run_command proc (t_op (tasks a ! k)) (library a) = (e, st')"
      by (cases "run_command proc (t_op (tasks a ! k)) (library a)")
    show ?thesis
      using assms False nk r
      by (cases "t_pc (tasks a ! k)") (simp_all add: step_def Let_def)
  qed
qed

lemma run_apart:
  assumes "apart_from i a = apart_from i b"
    and "i < length (tasks a)" and "t_pc (tasks a ! i) = Finished"
  shows "apart_from i (run_schedule proc sch a)
           = apart_from i (run_schedule proc (filter (\<lambda>k. k \<noteq> i) sch) b)"
  using assms unfolding run_schedule_def
proof (induction sch arbitrary: a b)
  case Nil
  then show ?case by simp
next
  case (Cons k sch)
  show ?case
  proof (cases "k = i")
    case True
    have "step proc i a = a" using Cons.prems(2,3) by (rule step_finished)
    with True Cons.IH[OF Cons.prems] show ?thesis by simp
  next
    case False
    have 1: "apart_from i (step proc k a) = apart_from i (step proc k b)"
      using Cons.prems(1) False by (rule step_apart)
    note 2 = step_keeps_finished[OF Cons.prems(2,3), of proc k]
    from Cons.IH[OF 1 conjunct1[OF 2] conjunct2[OF 2]] False show ?thesis by simp
  qed
qed

lemma rejected_apart:
  assumes "admin_operation_lock s" and "i < length (tasks s)"
    and "t_pc (tasks s ! i) = Invoked" and "t_admin (tasks s ! i)"
  shows "apart_from i (step proc i s) = apart_from i s"
    and "i < length (tasks (step proc i s))"
    and "t_pc (tasks (step proc i s) ! i) = Finished"
  using assms by (simp_all add: step_rejects apart_from_def)

text \<open>
  C9. Whatever commands arrive and in whatever order the event loop runs the stretches
  of their handlers, the number of commands in flight is one when the lock is held and
  none when it is free, so never more than one. A command of an admin that is handled
  while the lock is held ends in that same stretch: it gets the notice that an operation
  is in progress, it never touches the lock and never waits for it, and everything else,
  the lock, the library and the other tasks, stays as it was. What the rest of the bot
  does from there on, the in-flight run with the statistics that it reports included, is
  what it does when the rejected command never arrives.
\<close>

theorem one_admin_operation_at_a_time:
  assumes "admin_operation_lock s" and "i < length (tasks s)"
    and "t_pc (tasks s ! i) = Invoked" and "t_admin (tasks s ! i)"
  shows "length (filter (\<lambda>t. in_flight (t_pc t))
                   (tasks (run_schedule proc sch (fresh_bot commands st))))
           = (if admin_operation_lock (run_schedule proc sch (fresh_bot commands st))
              then 1 else 0)
       \<and> length (filter (\<lambda>t. in_flight (t_pc t))
                   (tasks (run_schedule proc sch (fresh_bot commands st)))) \<le> 1
       \<and> step proc i s
           = s\<lparr> tasks := (tasks s)[i := (tasks s ! i)\<lparr> t_pc := Finished \<rparr>],
                sent := sent s @ [(i, OperationInProgress)] \<rparr>
       \<and> apart_from i (run_schedule proc sch' (step proc i s))
           = apart_from i (run_schedule proc (filter (\<lambda>k. k \<noteq> i) sch') s)"
proof -
  have c: "length (filter (\<lambda>t. in_flight (t_pc t))
                   (tasks (run_schedule proc sch (fresh_bot commands st))))
           = (if admin_operation_lock (run_schedule proc sch (fresh_bot commands st))
              then 1 else 0)"
    by (rule run_keeps_count) (rule fresh_bot_count)
  then have c1: "length (filter (\<lambda>t. in_flight (t_pc t))
                   (tasks (run_schedule proc sch (fresh_bot commands st)))) \<le> 1"
    by (simp split: if_splits)
  note r = step_rejects[OF assms, of proc]
  note a = rejected_apart[OF assms, of proc]
  have n: "apart_from i (run_schedule proc sch' (step proc i s))
           = apart_from i (run_schedule proc (filter (\<lambda>k. k \<noteq> i) sch') s)"
    using a by (rule run_apart)
  from c c1 r n show ?thesis by (simp only: simp_thms)
qed

theorem one_admin_operation_at_a_time_witness:
  "admin_operation_lock
     (step idle_scraper 0 (fresh_bot [(Incremental, True), (Full, True)] (Available [])))
   \<and> 1 < length (tasks
        (step idle_scraper 0 (fresh_bot [(Incremental, True), (Full, True)] (Available []))))
   \<and> t_pc (tasks
        (step idle_scraper 0 (fresh_bot [(Incremental, True), (Full, True)] (Available []))) ! 1)
       = Invoked
   \<and> t_admin (tasks
        (step idle_scraper 0 (fresh_bot [(Incremental, True), (Full, True)] (Available []))) ! 1)
   \<and> sent (step idle_scraper 1
        (step idle_scraper 0 (fresh_bot [(Incremental, True), (Full, True)] (Available []))))
       = [(0, Starting Incremental), (1, OperationInProgress)]
   \<and> map t_pc (tasks (step idle_scraper 1
        (step idle_scraper 0 (fresh_bot [(Incremental, True), (Full, True)] (Available [])))))
       = [Sending, Finished]"
proof -
  let ?s = "step idle_scraper 0 (fresh_bot [(Incremental, True), (Full, True)] (Available []))"
  have h1: "admin_operation_lock ?s" by code_simp
  have h2: "1 < length (tasks ?s)" by code_simp
  have h3: "t_pc (tasks ?s ! 1) = Invoked" by code_simp
  have h4: "t_admin (tasks ?s ! 1)" by code_simp
  have e1: "sent ?s @ [(1, OperationInProgress)]
              = [(0, Starting Incremental), (1, OperationInProgress)]"
    by code_simp
  have e2: "map t_pc ((tasks ?s)[1 := (tasks ?s ! 1)\<lparr> t_pc := Finished \<rparr>]) = [Sending, Finished]"
    by code_simp
  from one_admin_operation_at_a_time[OF h1 h2 h3 h4, of idle_scraper]
  have "step idle_scraper 1 ?s
          = ?s\<lparr> tasks := (tasks ?s)[1 := (tasks ?s ! 1)\<lparr> t_pc := Finished \<rparr>],
                sent := sent ?s @ [(1, OperationInProgress)] \<rparr>"
    by blast
  then have "sent (step idle_scraper 1 ?s) = sent ?s @ [(1, OperationInProgress)]"
    and "tasks (step idle_scraper 1 ?s) = (tasks ?s)[1 := (tasks ?s ! 1)\<lparr> t_pc := Finished \<rparr>]"
    by simp_all
  with h1 h2 h3 h4 e1 e2 show ?thesis by (simp only: simp_thms)
qed

text \<open>A rebuild that arrives during an update: the update reports the same statistics
  with it and without it.\<close>

lemma rebuild_during_update_run:
  "sent (run_schedule idle_scraper [0, 1, 0, 0]
           (fresh_bot [(Incremental, True), (Full, True)] (Available [])))
     = [(0, Starting Incremental), (1, OperationInProgress),
        (0, Complete Incremental (get_content_stats []))]
   \<and> sent (run_schedule idle_scraper [0, 0, 0]
           (fresh_bot [(Incremental, True), (Full, True)] (Available [])))
     = [(0, Starting Incremental), (0, Complete Incremental (get_content_stats []))]"
  by code_simp

section \<open>The time of the last update\<close>

lemma fold_max_Max: "fold max ts (t :: 'a :: linorder) = Max (set (t # ts))"
  using Max.set_eq_fold[of t ts] by simp

lemma max_scraped_at_Max:
  "max_scraped_at d = (if d = [] then None else Some (Max (scraped_at ` set d)))"
proof (cases d)
  case Nil
  then show ?thesis by (simp add: max_scraped_at_def)
next
  case (Cons r rs)
  have "fold max (map scraped_at rs) (scraped_at r) = Max (set (scraped_at r # map scraped_at rs))"
    by (rule fold_max_Max)
  with Cons show ?thesis by (simp add: max_scraped_at_def)
qed

lemma max_scraped_at_store:
  "max_scraped_at (store_data d dat now)
     = Some (Max (insert now (scraped_at ` set (filter (\<lambda>r. url r \<noteq> d_url dat) d))))"
  by (simp add: max_scraped_at_Max store_data_def)

lemma max_scraped_at_store_latest:
  assumes "\<forall>r\<in>set d. scraped_at r \<le> now"
  shows "max_scraped_at (store_data d dat now) = Some now"
proof -
  let ?S = "insert now (scraped_at ` set (filter (\<lambda>r. url r \<noteq> d_url dat) d))"
  have "finite ?S" by simp
  moreover have "now \<in> ?S" by simp
  moreover have "\<forall>x\<in>?S. x \<le> now" using assms by auto
  ultimately have "Max ?S = now" by (meson Max_eqI)
  then show ?thesis by (simp only: max_scraped_at_store)
qed

text \<open>
  C10. \<^verbatim>\<open>get_content_stats\<close> takes \<^verbatim>\<open>last_update\<close> as the greatest
  \<^verbatim>\<open>scraped_at\<close> of all rows, whatever their success flag. So the write of a failed
  record, at a time not before the writes already stored, makes \<^verbatim>\<open>last_update\<close>
  the time of that write, while the four counts of the same statistics are those of the
  table without the record.
\<close>

theorem last_update_counts_failed_writes:
  assumes "\<not> d_scrape_success dat" and "\<forall>r\<in>set d. scraped_at r \<le> now"
  shows "last_update (get_content_stats d)
           = (if d = [] then None else Some (Max (scraped_at ` set d)))
       \<and> last_update (get_content_stats (store_data d dat now)) = Some now
       \<and> total_articles (get_content_stats (store_data d dat now))
           = total_articles (get_content_stats (filter (\<lambda>r. url r \<noteq> d_url dat) d))
       \<and> total_categories (get_content_stats (store_data d dat now))
           = total_categories (get_content_stats (filter (\<lambda>r. url r \<noteq> d_url dat) d))
       \<and> total_authors (get_content_stats (store_data d dat now))
           = total_authors (get_content_stats (filter (\<lambda>r. url r \<noteq> d_url dat) d))
       \<and> total_tags (get_content_stats (store_data d dat now))
           = total_tags (get_content_stats (filter (\<lambda>r. url r \<noteq> d_url dat) d))"
proof -
  let ?keep = "filter (\<lambda>r. url r \<noteq> d_url dat) d"
  obtain r where st: "store_data d dat now = ?keep @ r # []" and f: "\<not> scrape_success r"
    using assms(1) by (simp add: store_data_def)
  have k: "?keep @ [] = ?keep" by simp
  show ?thesis
    unfolding st
    using max_scraped_at_store_latest[OF assms(2), of dat] max_scraped_at_Max[of d]
    by (simp add: get_content_stats_def st count_drop_failed[OF f] get_all_categories_drop_failed[OF f]
        get_all_authors_drop_failed[OF f] get_all_tags_drop_failed[OF f]  del: filter_append filter.simps append_Nil2)
      (simp)
qed

theorem last_update_counts_failed_writes_witness:
  "\<not> d_scrape_success (sample_data ''u2'' False)
   \<and> scraped_at (sample_row ''u1'' [''music''] ''2025-02-01 10:00:00'' True) \<le> ''2025-03-01 10:00:00''
   \<and> last_update (get_content_stats [sample_row ''u1'' [''music''] ''2025-02-01 10:00:00'' True])
       = Some ''2025-02-01 10:00:00''
   \<and> last_update (get_content_stats
         (store_data [sample_row ''u1'' [''music''] ''2025-02-01 10:00:00'' True]
            (sample_data ''u2'' False) ''2025-03-01 10:00:00'')) = Some ''2025-03-01 10:00:00''
   \<and> total_articles (get_content_stats
         (store_data [sample_row ''u1'' [''music''] ''2025-02-01 10:00:00'' True]
            (sample_data ''u2'' False) ''2025-03-01 10:00:00'')) = 1"
proof -
  have f: "\<not> d_scrape_success (sample_data ''u2'' False)"
    by (simp add: sample_data_def)
  have le: "scraped_at (sample_row ''u1'' [''music''] ''2025-02-01 10:00:00'' True) \<le> ''2025-03-01 10:00:00''"
    by (simp add: sample_row_def)
  then have h: "\<forall>r\<in>set [sample_row ''u1'' [''music''] ''2025-02-01 10:00:00'' True].
                 scraped_at r \<le> ''2025-03-01 10:00:00''"
    by simp
  have u: "url (sample_row ''u1'' [''music''] ''2025-02-01 10:00:00'' True) \<noteq> d_url (sample_data ''u2'' False)"
    by (simp add: sample_row_def sample_data_def)
  have n: "total_articles (get_content_stats [sample_row ''u1'' [''music''] ''2025-02-01 10:00:00'' True]) = 1"
    by (simp add: get_content_stats_def sample_row_def)
  have m: "Max (scraped_at ` set [sample_row ''u1'' [''music''] ''2025-02-01 10:00:00'' True]) = ''2025-02-01 10:00:00''"
    by (simp add: sample_row_def)
  from last_update_counts_failed_writes[OF f h]
  show ?thesis using f le u n m by simp
qed

end
